theory Spec2Isabelle
  imports Complex_Main
begin

section \<open>Data model\<close>

text \<open>
  The detector of \<^verbatim>\<open>SIFT.cpp\<close> works on OpenCV matrices of single-precision
  samples. A matrix is modelled by its two dimensions and its sample function; samples are
  real numbers. The arithmetic of the detector and of the validator is exact in the
  model. In the orientation estimator a rounding can decide the bin of an angle: there
  every value that the source stores in a \<^verbatim>\<open>float\<close> goes through \<open>fl\<close>, the
  rounding to single precision, which is a parameter of the model. Whatever stops a run
  without a result is a value of \<open>error\<close>:
  \<^item> \<open>OutOfRange\<close>: an index outside a \<^verbatim>\<open>std::vector\<close> or outside a matrix
    (\<^verbatim>\<open>operator[]\<close> and \<^verbatim>\<open>Mat::at\<close> do not check; the behaviour of the
    source is undefined there);
  \<^item> \<open>DivByZero\<close>: an integer division by zero (undefined as well);
  \<^item> \<open>Thrown\<close>: an exception thrown by a library primitive (matrix operands of
    different sizes, a negative size, a blur that refuses its input);
  \<^item> \<open>SignOfZero\<close>: the result depends on the sign of an infinite quotient, which
    comes from the sign bit of a floating-point zero and is not carried by real numbers.
\<close>

datatype error = OutOfRange | DivByZero | Thrown | SignOfZero

record mat =
  rows :: int
  cols :: int
  px :: "int \<Rightarrow> int \<Rightarrow> real"

type_synonym pyramid = "mat list list"

text \<open>Sequencing: the first failure ends the run.\<close>

definition ebind :: "error + 'a \<Rightarrow> ('a \<Rightarrow> error + 'b) \<Rightarrow> error + 'b" where
  "ebind m f = (case m of Inl e \<Rightarrow> Inl e | Inr x \<Rightarrow> f x)"

text \<open>\<^verbatim>\<open>v[i]\<close> on a \<^verbatim>\<open>std::vector\<close>.\<close>

definition nth_e :: "'a list \<Rightarrow> int \<Rightarrow> error + 'a" where
  "nth_e xs i = (if 0 \<le> i \<and> i < int (length xs) then Inr (xs ! nat i) else Inl OutOfRange)"

text \<open>\<^verbatim>\<open>image.at<float>(r, c)\<close>: first argument the row, second the column.\<close>

definition mat_at :: "mat \<Rightarrow> int \<Rightarrow> int \<Rightarrow> error + real" where
  "mat_at m r c =
     (if 0 \<le> r \<and> r < rows m \<and> 0 \<le> c \<and> c < cols m then Inr (px m r c) else Inl OutOfRange)"

text \<open>\<^verbatim>\<open>dog_pyr[octave][interval].at<float>(r, c)\<close>.\<close>

definition pyr_at :: "pyramid \<Rightarrow> int \<Rightarrow> int \<Rightarrow> int \<Rightarrow> int \<Rightarrow> error + real" where
  "pyr_at pyr oc iv r c =
     ebind (nth_e pyr oc) (\<lambda>ivs. ebind (nth_e ivs iv) (\<lambda>m. mat_at m r c))"

section \<open>Extrema detector: \<^verbatim>\<open>SIFT::isExtrema\<close>\<close>

text \<open>
  The three nested loops of \<^verbatim>\<open>isExtrema\<close> visit the offsets \<open>(i, j, k)\<close> with
  \<open>i\<close> (interval) outermost and \<open>k\<close> (column) innermost, each from \<open>-1\<close> to \<open>1\<close>.
\<close>

definition offsets :: "(int \<times> int \<times> int) list" where
  "offsets = concat (map (\<lambda>i. concat (map (\<lambda>j. map (\<lambda>k. (i, j, k)) [-1, 0, 1]) [-1, 0, 1])) [-1, 0, 1])"

text \<open>
  One pass of the loop nest. \<open>rel\<close> is \<open>(\<le>)\<close> in the branch \<^verbatim>\<open>intensity > 0\<close> and
  \<open>(\<ge>)\<close> in the other. The neighbour is read first (left operand of \<^verbatim>\<open>&&\<close>), then
  the test \<^verbatim>\<open>(j != 0 || k != 0)\<close> is applied; the first hit returns false.
\<close>

fun scan :: "(real \<Rightarrow> real \<Rightarrow> bool) \<Rightarrow> pyramid \<Rightarrow> int \<Rightarrow> int \<Rightarrow> int \<Rightarrow> int \<Rightarrow> real
    \<Rightarrow> (int \<times> int \<times> int) list \<Rightarrow> error + bool" where
  "scan rel dog_pyr oc iv r c intensity [] = Inr True"
| "scan rel dog_pyr oc iv r c intensity ((i, j, k) # rest) =
     (case pyr_at dog_pyr oc (iv + i) (r + j) (c + k) of
        Inl e \<Rightarrow> Inl e
      | Inr n \<Rightarrow>
          if rel intensity n \<and> (j \<noteq> 0 \<or> k \<noteq> 0) then Inr False
          else scan rel dog_pyr oc iv r c intensity rest)"

definition isExtrema :: "pyramid \<Rightarrow> int \<Rightarrow> int \<Rightarrow> int \<Rightarrow> int \<Rightarrow> error + bool" where
  "isExtrema dog_pyr oc iv r c =
     (case pyr_at dog_pyr oc iv r c of
        Inl e \<Rightarrow> Inl e
      | Inr intensity \<Rightarrow>
          if intensity > 0 then scan (\<le>) dog_pyr oc iv r c intensity offsets
          else scan (\<ge>) dog_pyr oc iv r c intensity offsets)"

section \<open>Keypoint validator: \<^verbatim>\<open>SIFT::cleanPoints\<close>\<close>

text \<open>
  A single-precision quotient. With a divisor other than zero it is the real quotient;
  \<open>0 / 0\<close> is the IEEE not-a-number; a non-zero dividend over zero is an infinity whose
  sign is the sign bit of the zero.
\<close>

datatype quotient = Quot real | NotANumber | Infinity

definition fdiv :: "real \<Rightarrow> real \<Rightarrow> quotient" where
  "fdiv a b = (if b \<noteq> 0 then Quot (a / b) else if a = 0 then NotANumber else Infinity)"

text \<open>\<^verbatim>\<open>q > t\<close> on floats: false for a not-a-number, sign-dependent for an infinity.\<close>

definition exceeds :: "quotient \<Rightarrow> real \<Rightarrow> error + bool" where
  "exceeds q t = (case q of Quot x \<Rightarrow> Inr (x > t) | NotANumber \<Rightarrow> Inr False | Infinity \<Rightarrow> Inl SignOfZero)"

text \<open>
  Lines 189 to 192: the finite differences \<open>(fxx, fyy, fxy)\<close>. \<^verbatim>\<open>rx\<close> is the
  point's \<open>x\<close> and is passed to \<^verbatim>\<open>at\<close> as the row, \<^verbatim>\<open>ry\<close> is the point's
  \<open>y\<close> and is passed as the column.
\<close>

definition hessian :: "mat \<Rightarrow> int \<Rightarrow> int \<Rightarrow> error + (real \<times> real \<times> real)" where
  "hessian img rx ry =
     ebind (mat_at img (rx - 1) ry) (\<lambda>x0.
     ebind (mat_at img (rx + 1) ry) (\<lambda>x1.
     ebind (mat_at img rx ry) (\<lambda>m.
     ebind (mat_at img rx (ry - 1)) (\<lambda>y0.
     ebind (mat_at img rx (ry + 1)) (\<lambda>y1.
     ebind (mat_at img (rx - 1) (ry - 1)) (\<lambda>d00.
     ebind (mat_at img (rx + 1) (ry + 1)) (\<lambda>d11.
     ebind (mat_at img (rx - 1) (ry + 1)) (\<lambda>d01.
     ebind (mat_at img (rx + 1) (ry - 1)) (\<lambda>d10.
       Inr (x0 + x1 - 2 * m, y0 + y1 - 2 * m, d00 + d11 - d01 - d10))))))))))"

text \<open>
  Lines 181 to 196 of \<^verbatim>\<open>cleanPoints\<close>: the contrast test, then the Hessian, its
  trace and determinant and the quotient \<^verbatim>\<open>trace * trace / deter\<close>. The result is
  \<open>None\<close> when the contrast test returns false at line 183, and \<open>Some (deter, curvature)\<close>
  when line 196 has been executed: the division is evaluated exactly in the second case.
  \<^verbatim>\<open>image.at<float>(position)\<close> reads row \<open>y\<close>, column \<open>x\<close> of the point.
\<close>

definition hessian_ratio :: "int \<times> int \<Rightarrow> mat \<Rightarrow> real \<Rightarrow> error + (real \<times> quotient) option" where
  "hessian_ratio position img cont_thr =
     ebind (mat_at img (snd position) (fst position)) (\<lambda>v.
       if \<bar>v\<bar> < cont_thr then Inr None
       else
         ebind (hessian img (fst position) (snd position)) (\<lambda>(fxx, fyy, fxy).
           let trace = fxx + fyy;
               deter = fxx * fyy - fxy * fxy;
               curvature = fdiv (trace * trace) deter
           in Inr (Some (deter, curvature))))"

text \<open>Lines 198 to 204: the test \<^verbatim>\<open>deter < dtr_thr || curvature > curv_thr\<close>.\<close>

definition cleanPoints :: "int \<times> int \<Rightarrow> mat \<Rightarrow> int \<Rightarrow> real \<Rightarrow> real \<Rightarrow> error + bool" where
  "cleanPoints position img curv_thr cont_thr dtr_thr =
     ebind (hessian_ratio position img cont_thr) (\<lambda>st.
       case st of
         None \<Rightarrow> Inr False
       | Some (deter, curvature) \<Rightarrow>
           if deter < dtr_thr then Inr False
           else ebind (exceeds curvature (of_int curv_thr)) (\<lambda>gt. Inr (\<not> gt)))"

section \<open>Scanning the difference pyramid: \<^verbatim>\<open>SIFT::getScaleSpaceExtrema\<close>\<close>

text \<open>
  An OpenCV \<^verbatim>\<open>KeyPoint\<close>: position, size (used by the detector for the interval),
  angle, response, octave and class id.
\<close>

record keypoint =
  pt_x :: real
  pt_y :: real
  kp_size :: real
  angle :: real
  response :: real
  octave :: int
  class_id :: int

text \<open>\<^verbatim>\<open>KeyPoint(c, r, j, -1, 0, i)\<close>; the class id keeps its default \<open>-1\<close>.\<close>

definition KeyPoint :: "int \<Rightarrow> int \<Rightarrow> int \<Rightarrow> real \<Rightarrow> real \<Rightarrow> int \<Rightarrow> keypoint" where
  "KeyPoint x y sz ang resp oc =
     \<lparr>pt_x = of_int x, pt_y = of_int y, kp_size = of_int sz, angle = ang, response = resp,
      octave = oc, class_id = -1\<rparr>"

text \<open>A \<^verbatim>\<open>for\<close> loop over a list of indices, threading the state.\<close>

fun foldE :: "('a \<Rightarrow> 's \<Rightarrow> error + 's) \<Rightarrow> 'a list \<Rightarrow> 's \<Rightarrow> error + 's" where
  "foldE f [] s = Inr s"
| "foldE f (x # xs) s = (case f x s of Inl e \<Rightarrow> Inl e | Inr s' \<Rightarrow> foldE f xs s')"

text \<open>Lines 156 to 158: the body of the innermost loop.\<close>

definition scan_pixel :: "pyramid \<Rightarrow> int \<Rightarrow> real \<Rightarrow> real \<Rightarrow> int \<Rightarrow> int \<Rightarrow> int \<Rightarrow> int
    \<Rightarrow> keypoint list \<Rightarrow> error + keypoint list" where
  "scan_pixel dog_pyr curv_thr cont_thr dtr_thr i j r c keypoints =
     ebind (isExtrema dog_pyr i j r c) (\<lambda>ex.
       if ex then
         ebind (nth_e dog_pyr i) (\<lambda>ivs.
         ebind (nth_e ivs j) (\<lambda>img.
         ebind (cleanPoints (c, r) img curv_thr cont_thr dtr_thr) (\<lambda>good.
           if good then Inr (keypoints @ [KeyPoint c r j (-1) 0 i]) else Inr keypoints)))
       else Inr keypoints)"

text \<open>
  \<open>border\<close> is the macro \<^verbatim>\<open>SIFT_IMG_BORDER\<close> of the missing header; the thresholds
  \<open>cont_thr\<close> and \<open>dtr_thr\<close> are the default arguments that \<^verbatim>\<open>cleanPoints\<close>
  receives. The bounds of the row and column loops read \<^verbatim>\<open>dog_pyr[i][0]\<close>.
\<close>

definition getScaleSpaceExtrema :: "int \<Rightarrow> real \<Rightarrow> real \<Rightarrow> pyramid \<Rightarrow> keypoint list \<Rightarrow> int
    \<Rightarrow> error + keypoint list" where
  "getScaleSpaceExtrema border cont_thr dtr_thr dog_pyr keypoints curv_thr =
     (let octaves = int (length dog_pyr) in
      ebind (nth_e dog_pyr 0) (\<lambda>first.
        let intervals = int (length first) - 2 in
        foldE (\<lambda>i. foldE (\<lambda>j kps.
            ebind (nth_e dog_pyr i) (\<lambda>ivs.
            ebind (nth_e ivs 0) (\<lambda>m0.
              foldE (\<lambda>r. foldE (scan_pixel dog_pyr curv_thr cont_thr dtr_thr i j r)
                                [border .. cols m0 - border - 1])
                    [border .. rows m0 - border - 1] kps)))
            [1 .. intervals])
          [0 .. octaves - 1] keypoints))"

section \<open>Pyramid builder: \<^verbatim>\<open>SIFT::downSample\<close> and \<^verbatim>\<open>SIFT::buildGaussianPyramid\<close>\<close>

text \<open>
  OpenCV's \<^verbatim>\<open>GaussianBlur(src, dst, Size(0, 0), sigma, 0)\<close> is a parameter of the
  model: a function of the standard deviation and the source matrix that returns the
  blurred matrix or throws.
\<close>

type_synonym blur = "real \<Rightarrow> mat \<Rightarrow> error + mat"

text \<open>
  \<open>interpolation_sigma\<close> is the macro \<^verbatim>\<open>INTERPOLATION_SIGMA\<close> of the missing header.
  The first loop (\<open>every_second_col\<close>) makes \<^verbatim>\<open>temp\<close>, of half the width, from
  the columns \<open>2 * i\<close> of the blurred matrix; the second loop (\<open>every_second_row\<close>) makes
  \<^verbatim>\<open>resizedImage\<close>, of half the height, from the rows \<open>2 * i\<close> of \<^verbatim>\<open>temp\<close>.
  The dimensions are not negative, so the truncating division of C++ is \<open>div\<close>.
\<close>

definition every_second_col :: "mat \<Rightarrow> mat" where
  "every_second_col m = \<lparr>rows = rows m, cols = cols m div 2, px = (\<lambda>r i. px m r (i * 2))\<rparr>"

definition every_second_row :: "mat \<Rightarrow> mat" where
  "every_second_row m = \<lparr>rows = rows m div 2, cols = cols m, px = (\<lambda>i c. px m (i * 2) c)\<rparr>"

definition downSample :: "blur \<Rightarrow> real \<Rightarrow> mat \<Rightarrow> error + mat" where
  "downSample GaussianBlur interpolation_sigma img =
     ebind (GaussianBlur interpolation_sigma img) (\<lambda>blurredImage.
       let temp = every_second_col blurredImage;
           resizedImage = every_second_row temp
       in Inr resizedImage)"

text \<open>
  The inner loop of \<^verbatim>\<open>buildGaussianPyramid\<close>: \<open>n\<close> blurs of the same
  \<^verbatim>\<open>tempImage\<close>, the standard deviation multiplied by \<open>step_sigma\<close>
  (\<^verbatim>\<open>SIFT_STEP_SIGMA\<close>) after each.
\<close>

fun blur_intervals :: "blur \<Rightarrow> real \<Rightarrow> mat \<Rightarrow> nat \<Rightarrow> real \<Rightarrow> error + mat list" where
  "blur_intervals GaussianBlur step_sigma tempImage 0 sigma = Inr []"
| "blur_intervals GaussianBlur step_sigma tempImage (Suc n) sigma =
     ebind (GaussianBlur sigma tempImage) (\<lambda>blurredImage.
     ebind (blur_intervals GaussianBlur step_sigma tempImage n (sigma * step_sigma)) (\<lambda>rest.
       Inr (blurredImage # rest)))"

text \<open>
  The outer loop: \<open>n\<close> octaves, each started at \<open>init_sigma\<close>
  (\<^verbatim>\<open>SIFT_INIT_SIGMA\<close>); after each octave \<^verbatim>\<open>tempImage\<close> is down-sampled,
  also after the last one.
\<close>

fun build_octaves :: "blur \<Rightarrow> real \<Rightarrow> real \<Rightarrow> real \<Rightarrow> int \<Rightarrow> mat \<Rightarrow> nat
    \<Rightarrow> error + pyramid" where
  "build_octaves GaussianBlur init_sigma step_sigma interpolation_sigma nIntervals tempImage 0 =
     Inr []"
| "build_octaves GaussianBlur init_sigma step_sigma interpolation_sigma nIntervals tempImage (Suc n) =
     ebind (blur_intervals GaussianBlur step_sigma tempImage (nat (nIntervals + 3)) init_sigma)
       (\<lambda>pyr_intervals.
     ebind (downSample GaussianBlur interpolation_sigma tempImage) (\<lambda>tempImage'.
     ebind (build_octaves GaussianBlur init_sigma step_sigma interpolation_sigma nIntervals
              tempImage' n) (\<lambda>rest.
       Inr (pyr_intervals # rest))))"

text \<open>The octaves are appended to the vector \<^verbatim>\<open>gauss_pyr\<close> that the caller passes.\<close>

definition buildGaussianPyramid :: "blur \<Rightarrow> real \<Rightarrow> real \<Rightarrow> real \<Rightarrow> mat \<Rightarrow> pyramid \<Rightarrow> int \<Rightarrow> int
    \<Rightarrow> error + pyramid" where
  "buildGaussianPyramid GaussianBlur init_sigma step_sigma interpolation_sigma img gauss_pyr
       nOctaves nIntervals =
     ebind (build_octaves GaussianBlur init_sigma step_sigma interpolation_sigma nIntervals img
              (nat nOctaves)) (\<lambda>octs.
       Inr (gauss_pyr @ octs))"

text \<open>
  The value of \<^verbatim>\<open>tempImage\<close> at the start of octave \<open>k\<close> of
  \<^verbatim>\<open>buildGaussianPyramid\<close>: the image, down-sampled \<open>k\<close> times.
\<close>

fun octave_base :: "blur \<Rightarrow> real \<Rightarrow> mat \<Rightarrow> nat \<Rightarrow> error + mat" where
  "octave_base GaussianBlur interpolation_sigma tempImage 0 = Inr tempImage"
| "octave_base GaussianBlur interpolation_sigma tempImage (Suc k) =
     ebind (downSample GaussianBlur interpolation_sigma tempImage) (\<lambda>tempImage'.
       octave_base GaussianBlur interpolation_sigma tempImage' k)"

section \<open>Difference pyramid: \<^verbatim>\<open>SIFT::buildDogPyr\<close>\<close>

text \<open>
  \<^verbatim>\<open>a - b\<close> on matrices: the sample-wise difference \<open>diff_image\<close>; OpenCV throws
  when the operands differ in size.
\<close>

definition diff_image :: "mat \<Rightarrow> mat \<Rightarrow> mat" where
  "diff_image a b = \<lparr>rows = rows a, cols = cols a, px = (\<lambda>r c. px a r c - px b r c)\<rparr>"

definition mat_sub :: "mat \<Rightarrow> mat \<Rightarrow> error + mat" where
  "mat_sub a b =
     (if rows a = rows b \<and> cols a = cols b then Inr (diff_image a b) else Inl Thrown)"

text \<open>A loop that appends one element per index.\<close>

fun mapE :: "('a \<Rightarrow> error + 'b) \<Rightarrow> 'a list \<Rightarrow> error + 'b list" where
  "mapE f [] = Inr []"
| "mapE f (x # xs) = ebind (f x) (\<lambda>y. ebind (mapE f xs) (\<lambda>ys. Inr (y # ys)))"

text \<open>
  \<^verbatim>\<open>nIntervals\<close> is the size of octave \<open>0\<close> and is used for every octave.
\<close>

definition buildDogPyr :: "pyramid \<Rightarrow> error + pyramid" where
  "buildDogPyr gauss_pyr =
     (let nOctaves = int (length gauss_pyr) in
      ebind (nth_e gauss_pyr 0) (\<lambda>first.
        let nIntervals = int (length first) in
        mapE (\<lambda>i.
            mapE (\<lambda>j.
                ebind (nth_e gauss_pyr i) (\<lambda>ivs.
                ebind (nth_e ivs j) (\<lambda>a.
                ebind (nth_e ivs (j + 1)) (\<lambda>b. mat_sub a b))))
              [0 .. nIntervals - 1 - 1])
          [0 .. nOctaves - 1]))"

section \<open>Orientation estimator\<close>

subsection \<open>\<^verbatim>\<open>SIFT::histogramMax\<close>\<close>

text \<open>Conversion of a floating-point value to \<^verbatim>\<open>int\<close>: towards zero.\<close>

definition trunc :: "real \<Rightarrow> int" where
  "trunc x = (if 0 \<le> x then \<lfloor>x\<rfloor> else \<lceil>x\<rceil>)"

text \<open>
  The loop of \<^verbatim>\<open>histogramMax\<close> from index \<open>i\<close> on. \<^verbatim>\<open>maximum\<close> is an
  \<^verbatim>\<open>int\<close>: it is converted for the comparison and truncated by the assignment.
\<close>

fun histogramMax_loop :: "real list \<Rightarrow> int \<Rightarrow> int \<times> int \<Rightarrow> int \<times> int" where
  "histogramMax_loop [] i (maximum, indexMax) = (maximum, indexMax)"
| "histogramMax_loop (h # hs) i (maximum, indexMax) =
     (if of_int maximum < h then histogramMax_loop hs (i + 1) (trunc h, i)
      else histogramMax_loop hs (i + 1) (maximum, indexMax))"

definition histogramMax :: "real list \<Rightarrow> error + (int \<times> int)" where
  "histogramMax histogram =
     ebind (nth_e histogram 0) (\<lambda>h0. Inr (histogramMax_loop histogram 0 (trunc h0, 0)))"

subsection \<open>\<^verbatim>\<open>SIFT::buildHistogram\<close>\<close>

text \<open>Integer division of C++: undefined for a zero divisor, truncating otherwise.\<close>

definition cdiv :: "int \<Rightarrow> int \<Rightarrow> error + int" where
  "cdiv a b = (if b = 0 then Inl DivByZero else Inr (sgn a * sgn b * (\<bar>a\<bar> div \<bar>b\<bar>)))"

text \<open>The index pairs of two nested loops, \<open>i\<close> over the rows outside.\<close>

definition cells :: "int \<Rightarrow> int \<Rightarrow> (int \<times> int) list" where
  "cells nrows ncols = concat (map (\<lambda>i. map (\<lambda>j. (i, j)) [0 .. ncols - 1]) [0 .. nrows - 1])"

text \<open>\<^verbatim>\<open>histo[index]++\<close>.\<close>

definition bump :: "real list \<Rightarrow> int \<Rightarrow> error + real list" where
  "bump histo index =
     (if 0 \<le> index \<and> index < int (length histo)
      then Inr (histo[nat index := histo ! nat index + 1])
      else Inl OutOfRange)"

text \<open>
  A vector of a negative size makes the constructor throw. The quotient
  \<^verbatim>\<open>matrix.at<float>(i, j) / range\<close> is a \<^verbatim>\<open>float\<close>, converted to \<^verbatim>\<open>int\<close>.
\<close>

definition buildHistogram :: "(real \<Rightarrow> real) \<Rightarrow> mat \<Rightarrow> int \<Rightarrow> int \<Rightarrow> error + real list" where
  "buildHistogram fl matrix range' maximum =
     ebind (cdiv maximum range') (\<lambda>size.
       if size < 0 then Inl Thrown
       else
         foldE (\<lambda>(i, j) histo.
             ebind (mat_at matrix i j) (\<lambda>v. bump histo (trunc (fl (v / of_int range')))))
           (cells (rows matrix) (cols matrix)) (replicate (nat size) 0))"

subsection \<open>\<^verbatim>\<open>SIFT::rad2deg\<close> and \<^verbatim>\<open>SIFT::computeOrientationHist\<close>\<close>

text \<open>
  \<open>PI\<close> is the macro \<^verbatim>\<open>PI\<close> of the missing header. The parameter
  \<^verbatim>\<open>rad\<close> is a \<^verbatim>\<open>float\<close>: both \<^verbatim>\<open>rad += (2 * PI)\<close> and
  \<^verbatim>\<open>rad *= 360 / (2 * PI)\<close> round their result to single precision, so the value
  returned for a negative angle close to zero can be \<open>360\<close> itself.
\<close>

definition rad2deg :: "(real \<Rightarrow> real) \<Rightarrow> real \<Rightarrow> real \<Rightarrow> real" where
  "rad2deg fl PI rad =
     (let rad' = (if rad < 0 then fl (rad + 2 * PI) else rad);
          rad'' = fl (rad' * (360 / (2 * PI)))
      in rad'')"

text \<open>
  The body of the two loops that fill \<^verbatim>\<open>tempMagnitude\<close> and \<^verbatim>\<open>tempGradient\<close>:
  four reads of the image, then magnitude and angle, each stored in a \<^verbatim>\<open>float\<close>
  (the angle is one already when \<^verbatim>\<open>rad2deg\<close> returns it). \<open>W\<close> is the macro
  \<^verbatim>\<open>SIFT_HIST_BOREDER\<close>; \<open>atan2f\<close> is the function of the C library. \<^verbatim>\<open>keyx\<close> is
  part of the first argument of \<^verbatim>\<open>at\<close> (the row), \<^verbatim>\<open>keyy\<close> of the second.
\<close>

definition gradient_cell :: "(real \<Rightarrow> real) \<Rightarrow> real \<Rightarrow> (real \<Rightarrow> real \<Rightarrow> real) \<Rightarrow> int \<Rightarrow> mat
    \<Rightarrow> int \<Rightarrow> int \<Rightarrow> int \<times> int \<Rightarrow> error + (real \<times> real)" where
  "gradient_cell fl PI atan2f W img keyx keyy ij =
     (let i = fst ij; j = snd ij in
      ebind (mat_at img (keyx + i + 1 - W) (keyy - W + j)) (\<lambda>x1.
      ebind (mat_at img (keyx + i - 1 - W) (keyy - W + j)) (\<lambda>x0.
      ebind (mat_at img (keyx - W + i) (keyy + j + 1 - W)) (\<lambda>y1.
      ebind (mat_at img (keyx - W + i) (keyy + j - 1 - W)) (\<lambda>y0.
        let diffx = fl (x1 - x0);
            diffy = fl (y1 - y0);
            magnitude = fl (sqrt (diffx ^ 2 + diffy ^ 2));
            gradient = rad2deg fl PI (atan2f diffy diffx)
        in Inr (magnitude, gradient))))))"

text \<open>A square matrix of side \<open>n\<close> holding the values \<open>vs\<close> row by row.\<close>

definition grid :: "int \<Rightarrow> real list \<Rightarrow> mat" where
  "grid n vs = \<lparr>rows = n, cols = n, px = (\<lambda>i j. vs ! nat (i * n + j))\<rparr>"

text \<open>
  The members \<^verbatim>\<open>keypointsGradients\<close> and \<^verbatim>\<open>keypointsMagnitudes\<close> of the class
  are part of the state, with the keypoints.
\<close>

record orient_state =
  keypoints :: "keypoint list"
  keypointsGradients :: "mat list"
  keypointsMagnitudes :: "mat list"

text \<open>
  The test of lines 293 and 294: \<^verbatim>\<open>keyx\<close> is compared with the number of
  columns and \<^verbatim>\<open>keyy\<close> with the number of rows.
\<close>

definition window_fits :: "int \<Rightarrow> mat \<Rightarrow> int \<Rightarrow> int \<Rightarrow> bool" where
  "window_fits W img keyx keyy =
     (\<not> (keyx - W - 1 < 0 \<or> keyx + W + 1 > cols img
          \<or> keyy - W - 1 < 0 \<or> keyy + W + 1 > rows img))"

text \<open>
  The body of the loop over the keypoints, for index \<open>z\<close>; \<^verbatim>\<open>range\<close> is \<open>10\<close> and
  \<^verbatim>\<open>maximum\<close> is \<open>360\<close>. A matrix of a negative size makes the constructor throw.
\<close>

definition orient_keypoint :: "(real \<Rightarrow> real) \<Rightarrow> real \<Rightarrow> (real \<Rightarrow> real \<Rightarrow> real) \<Rightarrow> int \<Rightarrow> pyramid
    \<Rightarrow> int \<Rightarrow> orient_state \<Rightarrow> error + orient_state" where
  "orient_keypoint fl PI atan2f W dog_pyr z st =
     (let range' = 10; maximum = 360 in
      ebind (nth_e (keypoints st) z) (\<lambda>k.
      ebind (nth_e dog_pyr (octave k)) (\<lambda>ivs.
      ebind (nth_e ivs (trunc (kp_size k))) (\<lambda>img.
        let keyx = trunc (pt_x k); keyy = trunc (pt_y k) in
        if window_fits W img keyx keyy
        then
          if W * 2 < 0 then Inl Thrown
          else
            ebind (mapE (gradient_cell fl PI atan2f W img keyx keyy) (cells (W * 2) (W * 2)))
              (\<lambda>vals.
              let tempMagnitude = grid (W * 2) (map fst vals);
                  tempGradient = grid (W * 2) (map snd vals)
              in
              ebind (buildHistogram fl tempGradient range' maximum) (\<lambda>histo.
              ebind (histogramMax histo) (\<lambda>(maxima, indexMax).
                let angleOrientation = indexMax * range';
                    angleOrientation' = angleOrientation + range' div 2
                in Inr \<lparr>keypoints = (keypoints st)[nat z := k\<lparr>angle := of_int angleOrientation'\<rparr>],
                        keypointsGradients = keypointsGradients st @ [tempGradient],
                        keypointsMagnitudes = keypointsMagnitudes st @ [tempMagnitude]\<rparr>)))
        else Inr st))))"

definition computeOrientationHist :: "(real \<Rightarrow> real) \<Rightarrow> real \<Rightarrow> (real \<Rightarrow> real \<Rightarrow> real) \<Rightarrow> int
    \<Rightarrow> pyramid \<Rightarrow> orient_state \<Rightarrow> error + orient_state" where
  "computeOrientationHist fl PI atan2f W dog_pyr st =
     foldE (orient_keypoint fl PI atan2f W dog_pyr) [0 .. int (length (keypoints st)) - 1] st"

section \<open>What is assumed of the blur\<close>

text \<open>
  \<^verbatim>\<open>GaussianBlur\<close> gives its result the size of its source; \<open>keeps_size\<close> says so
  of the parameter. \<open>never_throws\<close> says that it accepts every matrix.
\<close>

definition keeps_size :: "blur \<Rightarrow> bool" where
  "keeps_size GaussianBlur =
     (\<forall>sigma m m'. GaussianBlur sigma m = Inr m' \<longrightarrow> rows m' = rows m \<and> cols m' = cols m)"

definition never_throws :: "blur \<Rightarrow> bool" where
  "never_throws GaussianBlur = (\<forall>sigma m. \<exists>m'. GaussianBlur sigma m = Inr m')"

text \<open>
  A matrix whose samples are all zero, and the blur of such a matrix being such a matrix
  again (a weighted mean of zeros is zero).
\<close>

definition is_zero :: "mat \<Rightarrow> bool" where
  "is_zero m = (\<forall>r \<in> set [0 .. rows m - 1]. \<forall>c \<in> set [0 .. cols m - 1]. px m r c = 0)"

definition zero_to_zero :: "blur \<Rightarrow> bool" where
  "zero_to_zero GaussianBlur =
     (\<forall>sigma m m'. GaussianBlur sigma m = Inr m' \<and> is_zero m \<longrightarrow> is_zero m')"

section \<open>Concrete inputs\<close>

text \<open>A 3 by 3 matrix that is zero except for the value \<open>v\<close> at its centre.\<close>

definition spike :: "real \<Rightarrow> mat" where
  "spike v = \<lparr>rows = 3, cols = 3, px = (\<lambda>r c. if r = 1 \<and> c = 1 then v else 0)\<rparr>"

text \<open>
  One octave of three difference images: the centre sample is \<open>5\<close> in interval \<open>0\<close>,
  \<open>1\<close> in interval \<open>1\<close> and \<open>0\<close> in interval \<open>2\<close>.
\<close>

definition dog_spike :: pyramid where
  "dog_spike = [[spike 5, spike 1, spike 0]]"

text \<open>A 3 by 3 matrix with the same value everywhere.\<close>

definition flat :: "real \<Rightarrow> mat" where
  "flat v = \<lparr>rows = 3, cols = 3, px = (\<lambda>r c. v)\<rparr>"

text \<open>
  A 3 by 3 matrix with \<open>1\<close> at the centre, \<open>3 / 2\<close> at its four edge neighbours and
  \<open>0\<close> at the corners: both second differences are \<open>1\<close>, the mixed one is \<open>0\<close>.
\<close>

definition bowl :: mat where
  "bowl = \<lparr>rows = 3, cols = 3,
     px = (\<lambda>r c. if r = 1 \<and> c = 1 then 1 else if r = 1 \<or> c = 1 then 3 / 2 else 0)\<rparr>"

text \<open>
  A stand-in for the blur in concrete runs: it keeps the size and multiplies every sample
  by the standard deviation.
\<close>

definition scaled :: "real \<Rightarrow> mat \<Rightarrow> mat" where
  "scaled sigma m = \<lparr>rows = rows m, cols = cols m, px = (\<lambda>r c. sigma * px m r c)\<rparr>"

definition scale_blur :: blur where
  "scale_blur sigma m = Inr (scaled sigma m)"

text \<open>A 4 by 4 matrix whose sample at row \<open>r\<close>, column \<open>c\<close> is \<open>4 * r + c\<close>.\<close>

definition ramp :: mat where
  "ramp = \<lparr>rows = 4, cols = 4, px = (\<lambda>r c. of_int (4 * r + c))\<rparr>"

text \<open>A 5 by 5 matrix of zeros.\<close>

definition zeros :: mat where
  "zeros = \<lparr>rows = 5, cols = 5, px = (\<lambda>r c. 0)\<rparr>"

text \<open>
  A matrix of 20 rows and 40 columns, and the state that holds one keypoint at \<open>x = 30\<close>,
  \<open>y = 10\<close> of it.
\<close>

definition wide :: mat where
  "wide = \<lparr>rows = 20, cols = 40, px = (\<lambda>r c. 0)\<rparr>"

definition st_wide :: orient_state where
  "st_wide = \<lparr>keypoints = [KeyPoint 30 10 0 (- 1) 0 0], keypointsGradients = [],
              keypointsMagnitudes = []\<rparr>"



text \<open>
  Stand-ins for the macro \<^verbatim>\<open>PI\<close>, for \<^verbatim>\<open>atan2f\<close> and for the rounding in
  concrete runs: \<open>3.14\<close>; a function that is right, to two decimals, where the
  concrete runs call it (\<open>0\<close> at the origin and on the positive \<open>x\<close> axis, \<open>1.57\<close> on
  the positive \<open>y\<close> axis); and the rounding that changes nothing, for runs whose values
  are small integers.
\<close>

definition exact :: "real \<Rightarrow> real" where
  "exact x = x"

definition PI_314 :: real where
  "PI_314 = 314 / 100"

definition atan2f_axes :: "real \<Rightarrow> real \<Rightarrow> real" where
  "atan2f_axes y x = (if 0 < y \<and> x = 0 then 157 / 100 else 0)"


text \<open>
  A 5 by 5 matrix whose sample is its column index, and the state that holds one keypoint
  at its centre.
\<close>

definition slope :: mat where
  "slope = \<lparr>rows = 5, cols = 5, px = (\<lambda>r c. of_int c)\<rparr>"

definition st_slope :: orient_state where
  "st_slope = \<lparr>keypoints = [KeyPoint 2 2 0 (- 1) 0 0], keypointsGradients = [],
               keypointsMagnitudes = []\<rparr>"

section \<open>Basic facts\<close>

lemma ebind_Inr_iff: "ebind m f = Inr y \<longleftrightarrow> (\<exists>x. m = Inr x \<and> f x = Inr y)"
  by (cases m) (simp_all add: ebind_def)

lemma ebind_Inr [simp]: "ebind (Inr x) f = f x"
  by (simp add: ebind_def)

lemma ebind_Inl [simp]: "ebind (Inl e) f = Inl e"
  by (simp add: ebind_def)

lemma upto_map_int: "[0 .. int n - 1] = map int [0 ..< n]"
proof (induction n)
  case 0
  then show ?case by simp
next
  case (Suc n)
  have "[0 .. int (Suc n) - 1] = [0 .. int n - 1] @ [int n]"
    using upto_rec2 [of 0 "int n"] by simp
  with Suc show ?case by simp
qed

lemma upto_nat: "[0 .. k] = map int [0 ..< nat (k + 1)]"
proof (cases "0 \<le> k")
  case True
  then show ?thesis using upto_map_int [of "nat (k + 1)"] by simp
next
  case False
  then show ?thesis by simp
qed

lemma mapE_map: "mapE f (map h xs) = mapE (\<lambda>x. f (h x)) xs"
  by (induction xs) simp_all

lemma mapE_Inr: "(\<And>x. x \<in> set xs \<Longrightarrow> f x = Inr (g x)) \<Longrightarrow> mapE f xs = Inr (map g xs)"
  by (induction xs) simp_all

lemma mapE_upto:
  assumes "\<And>k. k < nat (n + 1) \<Longrightarrow> f (int k) = Inr (g k)"
  shows "mapE f [0 .. n] = Inr (map g [0 ..< nat (n + 1)])"
  unfolding upto_nat mapE_map using assms by (intro mapE_Inr) simp

lemma nth_e_nat: "k < length xs \<Longrightarrow> nth_e xs (int k) = Inr (xs ! k)"
  by (simp add: nth_e_def)


section \<open>Properties of the extrema detector\<close>

lemma offsets_eq:
  "offsets =
    [(-1, -1, -1), (-1, -1, 0), (-1, -1, 1), (-1, 0, -1), (-1, 0, 0), (-1, 0, 1),
     (-1, 1, -1), (-1, 1, 0), (-1, 1, 1),
     (0, -1, -1), (0, -1, 0), (0, -1, 1), (0, 0, -1), (0, 0, 0), (0, 0, 1),
     (0, 1, -1), (0, 1, 0), (0, 1, 1),
     (1, -1, -1), (1, -1, 0), (1, -1, 1), (1, 0, -1), (1, 0, 0), (1, 0, 1),
     (1, 1, -1), (1, 1, 0), (1, 1, 1)]"
  by (simp add: offsets_def)

text \<open>
  What \<^verbatim>\<open>isExtrema\<close> decides when its 27 reads are in range, \<open>nb i j k\<close> being the
  sample at offset \<open>(i, j, k)\<close>: the centre is compared with the 24 neighbours that differ
  from it in row or column.
\<close>

lemma scan_all_read:
  assumes "\<forall>(i, j, k) \<in> set offs. pyr_at dog_pyr oc (iv + i) (r + j) (c + k) = Inr (nb i j k)"
  shows "scan rel dog_pyr oc iv r c v offs
           = Inr (\<forall>(i, j, k) \<in> set offs. (j \<noteq> 0 \<or> k \<noteq> 0) \<longrightarrow> \<not> rel v (nb i j k))"
  using assms by (induction offs) auto

lemma isExtrema_compares_24:
  assumes "\<forall>(i, j, k) \<in> set offsets. pyr_at dog_pyr oc (iv + i) (r + j) (c + k) = Inr (nb i j k)"
  shows "isExtrema dog_pyr oc iv r c =
           Inr (if nb 0 0 0 > 0
                then \<forall>(i, j, k) \<in> set offsets. (j \<noteq> 0 \<or> k \<noteq> 0) \<longrightarrow> nb i j k < nb 0 0 0
                else \<forall>(i, j, k) \<in> set offsets. (j \<noteq> 0 \<or> k \<noteq> 0) \<longrightarrow> nb 0 0 0 < nb i j k)"
proof -
  have "(0, 0, 0) \<in> set offsets" by (simp add: offsets_eq)
  with assms have centre: "pyr_at dog_pyr oc iv r c = Inr (nb 0 0 0)" by fastforce
  show ?thesis
    by (simp add: isExtrema_def centre scan_all_read [OF assms] not_le)
qed

text \<open>
  Claim C1 (a pixel is reported iff it is strictly beyond all 26 neighbours). The test
  \<^verbatim>\<open>(j != 0 || k != 0)\<close> skips the offset \<open>(i, 0, 0)\<close> for every \<open>i\<close>, so the samples
  at the same position in the intervals below and above are read and never compared. In
  \<open>dog_spike\<close> the centre of interval \<open>1\<close> holds \<open>1\<close> and the same position of interval
  \<open>0\<close> holds \<open>5\<close>: the value is not greater than that neighbour, and \<open>isExtrema\<close> returns
  true.
\<close>

theorem isExtrema_skips_scale_neighbours:
  "isExtrema dog_spike 0 1 1 1 = Inr True
   \<and> pyr_at dog_spike 0 1 1 1 = Inr 1
   \<and> pyr_at dog_spike 0 (1 - 1) 1 1 = Inr 5"
  by (simp add: isExtrema_def offsets_eq pyr_at_def nth_e_def mat_at_def ebind_def
      dog_spike_def spike_def)

section \<open>Properties of the keypoint validator\<close>

lemma mat_at_flat_centre: "mat_at (flat 1) 1 1 = Inr 1"
  by (simp add: mat_at_def flat_def)

lemma mat_at_bowl_centre: "mat_at bowl 1 1 = Inr 1"
  by (simp add: mat_at_def bowl_def)

lemma hessian_flat: "hessian (flat 1) 1 1 = Inr (0, 0, 0)"
  by (simp add: hessian_def mat_at_def ebind_def flat_def)

lemma hessian_bowl: "hessian bowl 1 1 = Inr (1, 1, 0)"
  by (simp add: hessian_def mat_at_def ebind_def bowl_def)

text \<open>
  Claim C2, as stated (the quotient \<open>trace\<^sup>2 / det\<close> is evaluated only with a determinant
  above the floor), fails. On the constant image \<open>flat 1\<close>, with the contrast threshold
  \<open>3 / 100\<close>, line 196 is executed with the determinant \<open>0\<close>: the quotient is \<open>0 / 0\<close>.
  On \<open>bowl\<close> it is executed with the determinant \<open>1\<close> and gives \<open>4\<close>, and the candidate is
  then rejected by the floor \<open>5\<close>.
\<close>

theorem ratio_computed_below_floor:
  "hessian_ratio (1, 1) (flat 1) (3 / 100) = Inr (Some (0, NotANumber))
   \<and> hessian_ratio (1, 1) bowl (3 / 100) = Inr (Some (1, Quot 4))
   \<and> cleanPoints (1, 1) bowl 10 (3 / 100) 5 = Inr False"
  by (simp add: cleanPoints_def hessian_ratio_def mat_at_flat_centre mat_at_bowl_centre
      hessian_flat hessian_bowl fdiv_def Let_def)

text \<open>
  Claim C2, amended: for every candidate that passes the contrast test (its nine reads in
  range) the quotient is computed from the determinant whatever its value, and the
  floor is consulted afterwards: a determinant below the floor rejects the candidate
  without the quotient being compared; otherwise the quotient decides.
\<close>

theorem hessian_ratio_unguarded:
  assumes "mat_at img y x = Inr v" and "\<not> \<bar>v\<bar> < cont_thr"
    and "hessian img x y = Inr (fxx, fyy, fxy)"
  shows "hessian_ratio (x, y) img cont_thr =
           Inr (Some (fxx * fyy - fxy * fxy,
                      fdiv ((fxx + fyy) * (fxx + fyy)) (fxx * fyy - fxy * fxy)))
         \<and> cleanPoints (x, y) img curv_thr cont_thr dtr_thr =
             (if fxx * fyy - fxy * fxy < dtr_thr then Inr False
              else ebind (exceeds (fdiv ((fxx + fyy) * (fxx + fyy)) (fxx * fyy - fxy * fxy))
                            (of_int curv_thr)) (\<lambda>gt. Inr (\<not> gt)))"
  using assms by (simp add: cleanPoints_def hessian_ratio_def ebind_def Let_def)

theorem hessian_ratio_unguarded_witness:
  "mat_at bowl 1 1 = Inr 1 \<and> \<not> \<bar>1::real\<bar> < 3 / 100 \<and> hessian bowl 1 1 = Inr (1, 1, 0)
   \<and> hessian_ratio (1, 1) bowl (3 / 100) = Inr (Some (1, Quot 4))
   \<and> cleanPoints (1, 1) bowl 10 (3 / 100) 0 = Inr True"
proof -
  have b: "\<not> \<bar>1::real\<bar> < 3 / 100" by simp
  show ?thesis
    using hessian_ratio_unguarded [OF mat_at_bowl_centre b hessian_bowl, of 10 0]
      mat_at_bowl_centre hessian_bowl
    by (simp add: fdiv_def exceeds_def ebind_def)
qed

text \<open>
  Claim C3, as stated (a determinant less than or equal to the floor is rejected), fails
  where the determinant equals the floor: \<open>bowl\<close> has determinant \<open>1\<close>, quotient \<open>4\<close>,
  and is accepted with the floor \<open>1\<close>; the constant image has determinant \<open>0\<close>, its
  quotient is not a number, and it is accepted with the floor \<open>0\<close>.
\<close>

theorem cleanPoints_accepts_at_floor:
  "hessian bowl 1 1 = Inr (1, 1, 0) \<and> 1 * 1 - 0 * 0 \<le> (1::real)
   \<and> cleanPoints (1, 1) bowl 10 (3 / 100) 1 = Inr True
   \<and> hessian (flat 1) 1 1 = Inr (0, 0, 0)
   \<and> cleanPoints (1, 1) (flat 1) 10 (3 / 100) 0 = Inr True"
  by (simp add: cleanPoints_def hessian_ratio_def mat_at_flat_centre mat_at_bowl_centre
      hessian_flat hessian_bowl ebind_def fdiv_def exceeds_def Let_def)

text \<open>
  Claim C3, amended: every candidate whose determinant is strictly less than the floor
  is rejected, whatever its contrast and its curvature (the reads being in range).
\<close>

theorem cleanPoints_rejects_below_floor:
  assumes "mat_at img y x = Inr v" and "hessian img x y = Inr (fxx, fyy, fxy)"
    and "fxx * fyy - fxy * fxy < dtr_thr"
  shows "cleanPoints (x, y) img curv_thr cont_thr dtr_thr = Inr False"
  using assms by (simp add: cleanPoints_def hessian_ratio_def ebind_def Let_def)

theorem cleanPoints_rejects_below_floor_witness:
  "mat_at bowl 1 1 = Inr 1 \<and> hessian bowl 1 1 = Inr (1, 1, 0) \<and> 1 * 1 - 0 * 0 < (2::real)
   \<and> cleanPoints (1, 1) bowl 10 (3 / 100) 2 = Inr False"
proof -
  have c: "(1::real) * 1 - 0 * 0 < 2" by simp
  show ?thesis
    using cleanPoints_rejects_below_floor [OF mat_at_bowl_centre hessian_bowl c, of 10 "3 / 100"]
      mat_at_bowl_centre hessian_bowl
    by simp
qed

section \<open>Properties of the pyramid builder and of the difference pyramid\<close>

lemma blur_intervals_length:
  "blur_intervals B ss t n sigma = Inr ivs \<Longrightarrow> length ivs = n"
  by (induction n arbitrary: sigma ivs) (auto simp: ebind_Inr_iff)

lemma blur_intervals_dims:
  "keeps_size B \<Longrightarrow> blur_intervals B ss t n sigma = Inr ivs \<Longrightarrow> m \<in> set ivs
     \<Longrightarrow> rows m = rows t \<and> cols m = cols t"
proof (induction n arbitrary: sigma ivs)
  case 0
  then show ?case by simp
next
  case (Suc n)
  from Suc.prems(2) obtain b rest where b: "B sigma t = Inr b"
    and rest: "blur_intervals B ss t n (sigma * ss) = Inr rest" and ivs: "ivs = b # rest"
    by (auto simp: ebind_Inr_iff)
  from Suc.prems(1) b have "rows b = rows t \<and> cols b = cols t"
    unfolding keeps_size_def by blast
  with Suc.IH [OF Suc.prems(1) rest] Suc.prems(3) ivs show ?case by auto
qed

lemma downSample_Inr:
  "downSample B si t = Inr d \<longleftrightarrow> (\<exists>b. B si t = Inr b \<and> d = every_second_row (every_second_col b))"
  by (auto simp: downSample_def ebind_Inr_iff Let_def)

lemma downSample_dims:
  "keeps_size B \<Longrightarrow> downSample B si t = Inr d \<Longrightarrow> rows d = rows t div 2 \<and> cols d = cols t div 2"
  unfolding keeps_size_def downSample_Inr
  by (auto simp: every_second_row_def every_second_col_def)

lemma build_octaves_length:
  "build_octaves B s0 ss si nI t n = Inr octs \<Longrightarrow> length octs = n"
  by (induction n arbitrary: t octs) (auto simp: ebind_Inr_iff)

lemma build_octaves_nth:
  "keeps_size B \<Longrightarrow> build_octaves B s0 ss si nI t n = Inr octs \<Longrightarrow> k < n
     \<Longrightarrow> length (octs ! k) = nat (nI + 3)
         \<and> (\<forall>m \<in> set (octs ! k). rows m = rows t div 2 ^ k \<and> cols m = cols t div 2 ^ k)"
proof (induction n arbitrary: t octs k)
  case 0
  then show ?case by simp
next
  case (Suc n)
  from Suc.prems(2) obtain ivs t' rest where
    ivs: "blur_intervals B ss t (nat (nI + 3)) s0 = Inr ivs"
    and t': "downSample B si t = Inr t'"
    and rest: "build_octaves B s0 ss si nI t' n = Inr rest"
    and octs: "octs = ivs # rest"
    by (auto simp: ebind_Inr_iff)
  show ?case
  proof (cases k)
    case 0
    then show ?thesis
      using blur_intervals_length [OF ivs] blur_intervals_dims [OF Suc.prems(1) ivs] octs by simp
  next
    case (Suc k')
    then have k': "k' < n" using Suc.prems(3) by simp
    have d: "rows t' = rows t div 2 \<and> cols t' = cols t div 2"
      using downSample_dims [OF Suc.prems(1) t'] .
    have h: "a div 2 div 2 ^ k' = a div 2 ^ Suc k'" for a :: int
      by (simp add: zdiv_zmult2_eq)
    show ?thesis
      using Suc.IH [OF Suc.prems(1) rest k'] octs Suc d h by simp
  qed
qed

lemma build_octaves_total:
  "never_throws B \<Longrightarrow> \<exists>octs. build_octaves B s0 ss si nI t n = Inr octs"
proof (induction n arbitrary: t)
  case 0
  then show ?case by simp
next
  case (Suc n)
  have iv: "\<exists>ivs. blur_intervals B ss t k sigma = Inr ivs" for k sigma
  proof (induction k arbitrary: sigma)
    case 0
    then show ?case by simp
  next
    case (Suc k)
    from Suc.prems obtain b where "B sigma t = Inr b"
      using \<open>never_throws B\<close> unfolding never_throws_def by blast
    moreover from Suc.IH obtain r where "blur_intervals B ss t k (sigma * ss) = Inr r" by blast
    ultimately show ?case by simp
  qed
  then obtain ivs where ivs: "blur_intervals B ss t (nat (nI + 3)) s0 = Inr ivs" by blast
  obtain b where b: "B si t = Inr b"
    using Suc.prems unfolding never_throws_def by blast
  then obtain t' where t': "downSample B si t = Inr t'"
    by (simp add: downSample_def Let_def)
  from Suc.IH [OF Suc.prems, of t'] obtain rest where
    "build_octaves B s0 ss si nI t' n = Inr rest" by blast
  with ivs t' show ?case by simp
qed

lemma blur_intervals_Inl:
  "blur_intervals B ss t n sigma = Inl e \<Longrightarrow> \<exists>s m. B s m = Inl e"
proof (induction n arbitrary: sigma)
  case 0
  then show ?case by simp
next
  case (Suc n)
  then show ?case
    by (cases "B sigma t"; cases "blur_intervals B ss t n (sigma * ss)") auto
qed

lemma downSample_Inl: "downSample B si t = Inl e \<Longrightarrow> \<exists>s m. B s m = Inl e"
  by (cases "B si t") (auto simp: downSample_def Let_def)

lemma build_octaves_Inl:
  "build_octaves B s0 ss si nI t n = Inl e \<Longrightarrow> \<exists>s m. B s m = Inl e"
proof (induction n arbitrary: t)
  case 0
  then show ?case by simp
next
  case (Suc n)
  show ?case
  proof (cases "blur_intervals B ss t (nat (nI + 3)) s0")
    case (Inl e')
    with Suc.prems blur_intervals_Inl [of B ss t _ s0 e'] show ?thesis by auto
  next
    case ivs: (Inr ivs)
    show ?thesis
    proof (cases "downSample B si t")
      case (Inl e')
      with Suc.prems ivs downSample_Inl [of B si t e'] show ?thesis by auto
    next
      case t': (Inr t')
      show ?thesis
      proof (cases "build_octaves B s0 ss si nI t' n")
        case (Inl e')
        with Suc.prems ivs t' Suc.IH [of t'] show ?thesis by auto
      next
        case (Inr rest)
        with Suc.prems ivs t' show ?thesis by simp
      qed
    qed
  qed
qed

lemma build_octaves_lengths:
  "build_octaves B s0 ss si nI t n = Inr octs \<Longrightarrow> ivs \<in> set octs \<Longrightarrow> length ivs = nat (nI + 3)"
proof (induction n arbitrary: t octs)
  case 0
  then show ?case by simp
next
  case (Suc n)
  from Suc.prems(1) obtain i0 t' rest where
    i0: "blur_intervals B ss t (nat (nI + 3)) s0 = Inr i0"
    and rest: "build_octaves B s0 ss si nI t' n = Inr rest"
    and octs: "octs = i0 # rest"
    by (auto simp: ebind_Inr_iff)
  show ?case
    using Suc.prems(2) octs blur_intervals_length [OF i0] Suc.IH [OF rest] by auto
qed

lemma octave_base_Suc:
  "octave_base B si t (Suc k) = ebind (octave_base B si t k) (downSample B si)"
proof (induction k arbitrary: t)
  case 0
  show ?case by (cases "downSample B si t") simp_all
next
  case (Suc k)
  show ?case
  proof (cases "downSample B si t")
    case (Inl e)
    then show ?thesis by simp
  next
    case (Inr t')
    then show ?thesis using Suc [of t'] by simp
  qed
qed

lemma build_octaves_base:
  "build_octaves B s0 ss si nI t n = Inr octs \<Longrightarrow> k < n
     \<Longrightarrow> \<exists>base. octave_base B si t k = Inr base
           \<and> blur_intervals B ss base (nat (nI + 3)) s0 = Inr (octs ! k)"
proof (induction n arbitrary: t octs k)
  case 0
  then show ?case by simp
next
  case (Suc n)
  from Suc.prems(1) obtain ivs t' rest where
    ivs: "blur_intervals B ss t (nat (nI + 3)) s0 = Inr ivs"
    and t': "downSample B si t = Inr t'"
    and rest: "build_octaves B s0 ss si nI t' n = Inr rest"
    and octs: "octs = ivs # rest"
    by (auto simp: ebind_Inr_iff)
  show ?case
  proof (cases k)
    case 0
    then show ?thesis using ivs octs by simp
  next
    case (Suc k')
    then have "k' < n" using Suc.prems(2) by simp
    from Suc.IH [OF rest this] show ?thesis using t' octs Suc by simp
  qed
qed

lemma buildGaussianPyramid_Inr:
  "buildGaussianPyramid B s0 ss si img gp nO nI = Inr pyr \<longleftrightarrow>
     (\<exists>octs. build_octaves B s0 ss si nI img (nat nO) = Inr octs \<and> pyr = gp @ octs)"
  by (auto simp: buildGaussianPyramid_def ebind_Inr_iff)

lemma keeps_size_scale_blur: "keeps_size scale_blur"
  by (auto simp: keeps_size_def scale_blur_def scaled_def)

lemma never_throws_scale_blur: "never_throws scale_blur"
  by (simp add: never_throws_def scale_blur_def)

lemma buildDogPyr_regular:
  assumes ne: "gauss_pyr \<noteq> []"
    and len: "\<And>ivs. ivs \<in> set gauss_pyr \<Longrightarrow> length ivs = L"
    and dims: "\<And>ivs a b. ivs \<in> set gauss_pyr \<Longrightarrow> a \<in> set ivs \<Longrightarrow> b \<in> set ivs
                 \<Longrightarrow> rows a = rows b \<and> cols a = cols b"
  shows "buildDogPyr gauss_pyr =
           Inr (map (\<lambda>ivs. map (\<lambda>j. diff_image (ivs ! j) (ivs ! Suc j)) [0 ..< L - 1]) gauss_pyr)"
proof -
  have first: "nth_e gauss_pyr 0 = Inr (gauss_pyr ! 0)"
    using ne by (simp add: nth_e_def)
  have L0: "length (gauss_pyr ! 0) = L"
    using ne len by simp
  have inner: "mapE (\<lambda>j. ebind (nth_e gauss_pyr (int i)) (\<lambda>ivs.
                     ebind (nth_e ivs j) (\<lambda>a. ebind (nth_e ivs (j + 1)) (\<lambda>b. mat_sub a b))))
                 [0 .. int L - 1 - 1]
               = Inr (map (\<lambda>j. diff_image (gauss_pyr ! i ! j) (gauss_pyr ! i ! Suc j)) [0 ..< L - 1])"
    if i: "i < length gauss_pyr" for i
  proof -
    let ?ivs = "gauss_pyr ! i"
    have mem: "?ivs \<in> set gauss_pyr" using i by simp
    have li: "length ?ivs = L" using len [OF mem] .
    have n: "nat (int L - 1 - 1 + 1) = L - 1" by simp
    have step: "ebind (nth_e gauss_pyr (int i)) (\<lambda>ivs.
                     ebind (nth_e ivs (int j)) (\<lambda>a. ebind (nth_e ivs (int j + 1)) (\<lambda>b. mat_sub a b)))
                = Inr (diff_image (?ivs ! j) (?ivs ! Suc j))" if j: "j < L - 1" for j
    proof -
      have a: "nth_e ?ivs (int j) = Inr (?ivs ! j)" using j li by (simp add: nth_e_def)
      have b: "nth_e ?ivs (int j + 1) = Inr (?ivs ! Suc j)"
        using j li nth_e_nat [of "Suc j" ?ivs] by (simp add: add.commute)
      have "?ivs ! j \<in> set ?ivs" "?ivs ! Suc j \<in> set ?ivs" using j li by simp_all
      then have d: "rows (?ivs ! j) = rows (?ivs ! Suc j) \<and> cols (?ivs ! j) = cols (?ivs ! Suc j)"
        using dims [OF mem] by blast
      show ?thesis using d by (simp add: nth_e_nat [OF i] a b mat_sub_def diff_image_def)
    qed
    show ?thesis
      using mapE_upto [of "int L - 1 - 1" _ "\<lambda>j. diff_image (?ivs ! j) (?ivs ! Suc j)"] step
      by (simp only: n)
  qed
  have outer: "mapE (\<lambda>i. mapE (\<lambda>j. ebind (nth_e gauss_pyr i) (\<lambda>ivs.
                     ebind (nth_e ivs j) (\<lambda>a. ebind (nth_e ivs (j + 1)) (\<lambda>b. mat_sub a b))))
                 [0 .. int L - 1 - 1]) [0 .. int (length gauss_pyr) - 1]
      = Inr (map (\<lambda>i. map (\<lambda>j. diff_image (gauss_pyr ! i ! j) (gauss_pyr ! i ! Suc j)) [0 ..< L - 1])
               [0 ..< length gauss_pyr])"
    using mapE_upto [of "int (length gauss_pyr) - 1" _
        "\<lambda>i. map (\<lambda>j. diff_image (gauss_pyr ! i ! j) (gauss_pyr ! i ! Suc j)) [0 ..< L - 1]"] inner
    by simp
  have "map (\<lambda>i. map (\<lambda>j. diff_image (gauss_pyr ! i ! j) (gauss_pyr ! i ! Suc j)) [0 ..< L - 1])
               [0 ..< length gauss_pyr]
        = map (\<lambda>ivs. map (\<lambda>j. diff_image (ivs ! j) (ivs ! Suc j)) [0 ..< L - 1]) gauss_pyr"
    by (rule nth_equalityI) simp_all
  then show ?thesis
    unfolding buildDogPyr_def Let_def first ebind_Inr L0 outer by (simp only:)
qed

lemma pyramid_ramp_1_1:
  "buildGaussianPyramid scale_blur 1 2 1 ramp [] 1 1
     = Inr [[scaled 1 ramp, scaled 2 ramp, scaled 4 ramp, scaled 8 ramp]]"
  by (simp add: buildGaussianPyramid_def eval_nat_numeral scale_blur_def downSample_def Let_def)

lemma pyramid_ramp_2_0:
  "buildGaussianPyramid scale_blur 1 2 1 ramp [] 2 0
     = Inr [[scaled 1 ramp, scaled 2 ramp, scaled 4 ramp],
            [scaled 1 (every_second_row (every_second_col (scaled 1 ramp))),
             scaled 2 (every_second_row (every_second_col (scaled 1 ramp))),
             scaled 4 (every_second_row (every_second_col (scaled 1 ramp)))]]"
  by (simp add: buildGaussianPyramid_def eval_nat_numeral scale_blur_def downSample_def Let_def)

text \<open>
  Claim C4, as stated (construction fails with an error when \<open>nIntervals < 1\<close> or when
  the image is too small for the octaves), fails: with \<open>nIntervals = 0\<close> the builder
  returns one octave of three images of \<open>ramp\<close>; with \<open>nIntervals = - 2\<close> and three
  octaves of a 3 by 3 image it returns octaves of sizes 3 by 3, 1 by 1 and 0 by 0.
\<close>

theorem buildGaussianPyramid_accepts_zero_intervals:
  "buildGaussianPyramid scale_blur 1 2 1 ramp [] 1 0
     = Inr [[scaled 1 ramp, scaled 2 ramp, scaled 4 ramp]]
   \<and> map (map (\<lambda>m. (rows m, cols m))) (projr (buildGaussianPyramid scale_blur 1 2 1 (flat 1) [] 3 (- 2)))
       = [[(3, 3)], [(1, 1)], [(0, 0)]]"
  by (simp add: buildGaussianPyramid_def eval_nat_numeral scale_blur_def downSample_def Let_def
      scaled_def every_second_row_def every_second_col_def flat_def)

text \<open>
  Claim C4, amended: \<^verbatim>\<open>buildGaussianPyramid\<close> checks neither \<open>nIntervals\<close> nor the
  size of the image. With a blur that accepts every matrix it returns, for every
  \<open>nOctaves\<close>, \<open>nIntervals\<close> and image, \<open>nOctaves\<close> octaves of \<open>nIntervals + 3\<close> images
  each (none when that number is negative), octave \<open>k\<close> having the dimensions of the image
  divided by \<open>2 ^ k\<close>, zero included; and when it fails, the error is one that the blur
  has thrown.
\<close>

theorem buildGaussianPyramid_unchecked:
  "(never_throws GaussianBlur \<longrightarrow>
      (\<exists>octs. buildGaussianPyramid GaussianBlur init_sigma step_sigma interpolation_sigma img
                 gauss_pyr nOctaves nIntervals = Inr (gauss_pyr @ octs)
         \<and> length octs = nat nOctaves
         \<and> (\<forall>ivs \<in> set octs. length ivs = nat (nIntervals + 3))
         \<and> (keeps_size GaussianBlur \<longrightarrow>
              (\<forall>k < nat nOctaves. \<forall>m \<in> set (octs ! k).
                 rows m = rows img div 2 ^ k \<and> cols m = cols img div 2 ^ k))))
   \<and> (\<forall>e. buildGaussianPyramid GaussianBlur init_sigma step_sigma interpolation_sigma img
              gauss_pyr nOctaves nIntervals = Inl e
          \<longrightarrow> (\<exists>sigma m. GaussianBlur sigma m = Inl e))"
proof (intro conjI impI allI)
  assume nt: "never_throws GaussianBlur"
  from build_octaves_total [OF nt] obtain octs where
    octs: "build_octaves GaussianBlur init_sigma step_sigma interpolation_sigma nIntervals img
             (nat nOctaves) = Inr octs"
    by blast
  have "buildGaussianPyramid GaussianBlur init_sigma step_sigma interpolation_sigma img
          gauss_pyr nOctaves nIntervals = Inr (gauss_pyr @ octs)"
    by (simp add: buildGaussianPyramid_def octs)
  moreover have "length octs = nat nOctaves"
    using build_octaves_length [OF octs] .
  moreover have "\<forall>ivs \<in> set octs. length ivs = nat (nIntervals + 3)"
    using build_octaves_lengths [OF octs] by blast
  moreover have "keeps_size GaussianBlur \<longrightarrow>
        (\<forall>k < nat nOctaves. \<forall>m \<in> set (octs ! k).
           rows m = rows img div 2 ^ k \<and> cols m = cols img div 2 ^ k)"
    using build_octaves_nth [OF _ octs] by blast
  ultimately show "\<exists>octs. buildGaussianPyramid GaussianBlur init_sigma step_sigma
        interpolation_sigma img gauss_pyr nOctaves nIntervals = Inr (gauss_pyr @ octs)
      \<and> length octs = nat nOctaves
      \<and> (\<forall>ivs \<in> set octs. length ivs = nat (nIntervals + 3))
      \<and> (keeps_size GaussianBlur \<longrightarrow>
           (\<forall>k < nat nOctaves. \<forall>m \<in> set (octs ! k).
              rows m = rows img div 2 ^ k \<and> cols m = cols img div 2 ^ k))"
    by blast
next
  fix e
  assume "buildGaussianPyramid GaussianBlur init_sigma step_sigma interpolation_sigma img
            gauss_pyr nOctaves nIntervals = Inl e"
  then have "build_octaves GaussianBlur init_sigma step_sigma interpolation_sigma nIntervals img
               (nat nOctaves) = Inl e"
    by (cases "build_octaves GaussianBlur init_sigma step_sigma interpolation_sigma nIntervals img
               (nat nOctaves)") (simp_all add: buildGaussianPyramid_def)
  then show "\<exists>sigma m. GaussianBlur sigma m = Inl e"
    by (rule build_octaves_Inl)
qed

theorem buildGaussianPyramid_unchecked_witness:
  "\<exists>octs. buildGaussianPyramid scale_blur 1 2 1 (flat 1) [] 3 0 = Inr ([] @ octs)
     \<and> length octs = 3 \<and> length (octs ! 2) = 3 \<and> rows (octs ! 2 ! 0) = 0"
proof -
  from buildGaussianPyramid_unchecked [of scale_blur 1 2 1 "flat 1" "[]" 3 0]
    never_throws_scale_blur keeps_size_scale_blur
  obtain octs where
    b: "buildGaussianPyramid scale_blur 1 2 1 (flat 1) [] 3 0 = Inr ([] @ octs)"
    and l: "length octs = nat 3"
    and i: "\<forall>ivs \<in> set octs. length ivs = nat (0 + 3)"
    and d: "\<forall>k < nat 3. \<forall>m \<in> set (octs ! k). rows m = rows (flat 1) div 2 ^ k"
    by blast
  from l i have l2: "length (octs ! 2) = 3" by simp
  then have "octs ! 2 ! 0 \<in> set (octs ! 2)" by simp
  moreover have "(2::nat) < nat 3" by simp
  ultimately have "rows (octs ! 2 ! 0) = rows (flat 1) div 2 ^ 2" using d by blast
  then show ?thesis
    using b l l2 by (intro exI [of _ octs]) (simp add: flat_def)
qed

text \<open>
  Claim C5, as stated (for every pyramid that the builder produces), fails for the pyramid
  of no octave: \<^verbatim>\<open>buildGaussianPyramid\<close> returns it for \<open>nOctaves = 0\<close>, and
  \<^verbatim>\<open>buildDogPyr\<close> reads \<^verbatim>\<open>gauss_pyr[0]\<close> at line 76.
\<close>

theorem buildDogPyr_of_no_octave:
  "buildGaussianPyramid scale_blur 1 2 1 ramp [] 0 1 = Inr []
   \<and> buildDogPyr [] = Inl OutOfRange"
  by (simp add: buildGaussianPyramid_def buildDogPyr_def nth_e_def)

text \<open>
  Claim C5, amended: for a pyramid that \<^verbatim>\<open>buildGaussianPyramid\<close> has produced with
  \<open>nOctaves \<ge> 1\<close> octaves (from a blur that keeps the size), \<^verbatim>\<open>buildDogPyr\<close>
  returns a difference pyramid of \<open>nOctaves\<close> octaves; each holds \<open>nIntervals + 2\<close>
  images; image \<open>j\<close> of octave \<open>k\<close> is interval \<open>j\<close> minus interval \<open>j + 1\<close> of the
  pyramid's octave \<open>k\<close>, sample by sample, and has that octave's dimensions.
\<close>

theorem buildDogPyr_of_pyramid:
  assumes ks: "keeps_size GaussianBlur"
    and build: "buildGaussianPyramid GaussianBlur init_sigma step_sigma interpolation_sigma img []
                  nOctaves nIntervals = Inr gauss_pyr"
    and pos: "0 < nOctaves"
  shows "\<exists>dog_pyr. buildDogPyr gauss_pyr = Inr dog_pyr
           \<and> length gauss_pyr = nat nOctaves \<and> length dog_pyr = nat nOctaves
           \<and> (\<forall>k < nat nOctaves.
                 length (gauss_pyr ! k) = nat (nIntervals + 3)
                 \<and> length (dog_pyr ! k) = nat (nIntervals + 2)
                 \<and> (\<forall>j < nat (nIntervals + 2).
                       dog_pyr ! k ! j = diff_image (gauss_pyr ! k ! j) (gauss_pyr ! k ! Suc j)
                       \<and> rows (dog_pyr ! k ! j) = rows (gauss_pyr ! k ! j)
                       \<and> cols (dog_pyr ! k ! j) = cols (gauss_pyr ! k ! j)
                       \<and> (\<forall>r c. px (dog_pyr ! k ! j) r c
                                  = px (gauss_pyr ! k ! j) r c - px (gauss_pyr ! k ! Suc j) r c)))"
proof -
  let ?L = "nat (nIntervals + 3)"
  from build have octs: "build_octaves GaussianBlur init_sigma step_sigma interpolation_sigma
      nIntervals img (nat nOctaves) = Inr gauss_pyr"
    by (simp add: buildGaussianPyramid_Inr)
  have len: "length gauss_pyr = nat nOctaves"
    using build_octaves_length [OF octs] .
  have ne: "gauss_pyr \<noteq> []" using len pos by auto
  have reg: "length ivs = ?L \<and> (\<forall>a \<in> set ivs. \<forall>b \<in> set ivs. rows a = rows b \<and> cols a = cols b)"
    if "ivs \<in> set gauss_pyr" for ivs
  proof -
    from that obtain k where k: "k < nat nOctaves" and ivs: "ivs = gauss_pyr ! k"
      using len by (auto simp: in_set_conv_nth)
    from build_octaves_nth [OF ks octs k] ivs show ?thesis by simp
  qed
  let ?dog = "map (\<lambda>ivs. map (\<lambda>j. diff_image (ivs ! j) (ivs ! Suc j)) [0 ..< ?L - 1]) gauss_pyr"
  have dog: "buildDogPyr gauss_pyr = Inr ?dog"
    using buildDogPyr_regular [OF ne, of ?L] reg by blast
  have L: "?L - 1 = nat (nIntervals + 2)" by simp
  have inner: "length (?dog ! k) = nat (nIntervals + 2)
      \<and> (\<forall>j < nat (nIntervals + 2).
            ?dog ! k ! j = diff_image (gauss_pyr ! k ! j) (gauss_pyr ! k ! Suc j))"
    if k: "k < nat nOctaves" for k
    using k len by (simp add: L)
  show ?thesis
  proof (intro exI [of _ ?dog] conjI allI impI)
    show "buildDogPyr gauss_pyr = Inr ?dog" by (rule dog)
    show "length gauss_pyr = nat nOctaves" by (rule len)
    show "length ?dog = nat nOctaves" using len by simp
  next
    fix k assume k: "k < nat nOctaves"
    then have "gauss_pyr ! k \<in> set gauss_pyr" using len by simp
    then show "length (gauss_pyr ! k) = nat (nIntervals + 3)" using reg by blast
    show "length (?dog ! k) = nat (nIntervals + 2)" using inner [OF k] by blast
  next
    fix k j assume k: "k < nat nOctaves" and j: "j < nat (nIntervals + 2)"
    then show eq: "?dog ! k ! j = diff_image (gauss_pyr ! k ! j) (gauss_pyr ! k ! Suc j)"
      using inner [OF k] by blast
    show "rows (?dog ! k ! j) = rows (gauss_pyr ! k ! j)"
      unfolding eq by (simp add: diff_image_def)
    show "cols (?dog ! k ! j) = cols (gauss_pyr ! k ! j)"
      unfolding eq by (simp add: diff_image_def)
    fix r c
    show "px (?dog ! k ! j) r c = px (gauss_pyr ! k ! j) r c - px (gauss_pyr ! k ! Suc j) r c"
      unfolding eq by (simp add: diff_image_def)
  qed
qed

theorem buildDogPyr_of_pyramid_witness:
  "\<exists>dog_pyr. buildDogPyr [[scaled 1 ramp, scaled 2 ramp, scaled 4 ramp, scaled 8 ramp]] = Inr dog_pyr
     \<and> length dog_pyr = 1 \<and> length (dog_pyr ! 0) = 3
     \<and> px (dog_pyr ! 0 ! 0) 1 1 = - 5 \<and> rows (dog_pyr ! 0 ! 2) = 4"
proof -
  have pos: "(0::int) < 1" by simp
  from buildDogPyr_of_pyramid [OF keeps_size_scale_blur pyramid_ramp_1_1 pos]
  obtain dog_pyr where d: "buildDogPyr [[scaled 1 ramp, scaled 2 ramp, scaled 4 ramp, scaled 8 ramp]] = Inr dog_pyr"
    and l: "length dog_pyr = nat 1"
    and r: "\<forall>k < nat 1. length (dog_pyr ! k) = nat (1 + 2)
              \<and> (\<forall>j < nat (1 + 2).
                   rows (dog_pyr ! k ! j) = rows ([[scaled 1 ramp, scaled 2 ramp, scaled 4 ramp, scaled 8 ramp]] ! k ! j)
                   \<and> (\<forall>r c. px (dog_pyr ! k ! j) r c
                        = px ([[scaled 1 ramp, scaled 2 ramp, scaled 4 ramp, scaled 8 ramp]] ! k ! j) r c
                          - px ([[scaled 1 ramp, scaled 2 ramp, scaled 4 ramp, scaled 8 ramp]] ! k ! Suc j) r c))"
    by blast
  from r have r0: "length (dog_pyr ! 0) = 3"
      "rows (dog_pyr ! 0 ! 2) = rows ([[scaled 1 ramp, scaled 2 ramp, scaled 4 ramp, scaled 8 ramp]] ! 0 ! 2)"
      "px (dog_pyr ! 0 ! 0) 1 1 = px ([[scaled 1 ramp, scaled 2 ramp, scaled 4 ramp, scaled 8 ramp]] ! 0 ! 0) 1 1
          - px ([[scaled 1 ramp, scaled 2 ramp, scaled 4 ramp, scaled 8 ramp]] ! 0 ! Suc 0) 1 1"
    by simp_all
  show ?thesis
    using d l r0 by (intro exI [of _ dog_pyr]) (simp add: scaled_def ramp_def)
qed

text \<open>
  Claim C6: between octave \<open>k\<close> and octave \<open>k + 1\<close> of the pyramid the base image is
  down-sampled: it is blurred with the interpolation sigma, every second column of the
  result is kept, then every second row; the new base has \<open>rows div 2\<close> rows and
  \<open>cols div 2\<close> columns, its sample \<open>(r, c)\<close> is the blurred sample \<open>(2 r, 2 c)\<close>, and
  every image of octave \<open>k + 1\<close> has half the rows and half the columns, rounded down, of
  every image of octave \<open>k\<close>.
\<close>

theorem downSample_between_octaves:
  assumes ks: "keeps_size GaussianBlur"
    and build: "buildGaussianPyramid GaussianBlur init_sigma step_sigma interpolation_sigma img []
                  nOctaves nIntervals = Inr gauss_pyr"
    and k: "Suc k < nat nOctaves"
  shows "\<exists>base blurred base'.
           octave_base GaussianBlur interpolation_sigma img k = Inr base
           \<and> GaussianBlur interpolation_sigma base = Inr blurred
           \<and> downSample GaussianBlur interpolation_sigma base = Inr base'
           \<and> base' = every_second_row (every_second_col blurred)
           \<and> octave_base GaussianBlur interpolation_sigma img (Suc k) = Inr base'
           \<and> rows base' = rows base div 2 \<and> cols base' = cols base div 2
           \<and> (\<forall>r c. px base' r c = px blurred (r * 2) (c * 2))
           \<and> blur_intervals GaussianBlur step_sigma base (nat (nIntervals + 3)) init_sigma
               = Inr (gauss_pyr ! k)
           \<and> blur_intervals GaussianBlur step_sigma base' (nat (nIntervals + 3)) init_sigma
               = Inr (gauss_pyr ! Suc k)
           \<and> (\<forall>a \<in> set (gauss_pyr ! k). \<forall>b \<in> set (gauss_pyr ! Suc k).
                 rows b = rows a div 2 \<and> cols b = cols a div 2)"
proof -
  from build have octs: "build_octaves GaussianBlur init_sigma step_sigma interpolation_sigma
      nIntervals img (nat nOctaves) = Inr gauss_pyr"
    by (simp add: buildGaussianPyramid_Inr)
  from k have k0: "k < nat nOctaves" by simp
  from build_octaves_base [OF octs k0] obtain base where
    base: "octave_base GaussianBlur interpolation_sigma img k = Inr base"
    and ivs: "blur_intervals GaussianBlur step_sigma base (nat (nIntervals + 3)) init_sigma
               = Inr (gauss_pyr ! k)"
    by blast
  from build_octaves_base [OF octs k] obtain base' where
    base': "octave_base GaussianBlur interpolation_sigma img (Suc k) = Inr base'"
    and ivs': "blur_intervals GaussianBlur step_sigma base' (nat (nIntervals + 3)) init_sigma
               = Inr (gauss_pyr ! Suc k)"
    by blast
  from base' have "ebind (octave_base GaussianBlur interpolation_sigma img k)
      (downSample GaussianBlur interpolation_sigma) = Inr base'"
    by (simp only: octave_base_Suc)
  with base have ds: "downSample GaussianBlur interpolation_sigma base = Inr base'"
    by simp
  then obtain blurred where bl: "GaussianBlur interpolation_sigma base = Inr blurred"
    and eq: "base' = every_second_row (every_second_col blurred)"
    unfolding downSample_Inr by blast
  have dims: "rows base' = rows base div 2 \<and> cols base' = cols base div 2"
    using downSample_dims [OF ks ds] .
  have pxs: "px base' r c = px blurred (r * 2) (c * 2)" for r c
    unfolding eq by (simp add: every_second_row_def every_second_col_def)
  have halves: "rows b = rows a div 2 \<and> cols b = cols a div 2"
    if "a \<in> set (gauss_pyr ! k)" and "b \<in> set (gauss_pyr ! Suc k)" for a b
    using blur_intervals_dims [OF ks ivs that(1)] blur_intervals_dims [OF ks ivs' that(2)] dims
    by simp
  show ?thesis
    using base bl ds eq base' dims pxs ivs ivs' halves by blast
qed

theorem downSample_between_octaves_witness:
  "\<exists>base'. octave_base scale_blur 1 ramp (Suc 0) = Inr base'
     \<and> base' = every_second_row (every_second_col (scaled 1 ramp))
     \<and> rows base' = 2 \<and> cols base' = 2 \<and> px base' 1 1 = 10"
proof -
  have k: "Suc 0 < nat 2" by simp
  from downSample_between_octaves [OF keeps_size_scale_blur pyramid_ramp_2_0 k]
  obtain base blurred base' where
    "octave_base scale_blur 1 ramp 0 = Inr base"
    "scale_blur 1 base = Inr blurred"
    "base' = every_second_row (every_second_col blurred)"
    "octave_base scale_blur 1 ramp (Suc 0) = Inr base'"
    "rows base' = rows base div 2 \<and> cols base' = cols base div 2"
    "\<forall>r c. px base' r c = px blurred (r * 2) (c * 2)"
    by blast
  then show ?thesis
    by (intro exI [of _ base']) (auto simp: scale_blur_def scaled_def ramp_def)
qed

section \<open>The extrema detector on an image of zeros\<close>

lemma is_zero_iff:
  "is_zero m \<longleftrightarrow> (\<forall>r c. 0 \<le> r \<and> r < rows m \<and> 0 \<le> c \<and> c < cols m \<longrightarrow> px m r c = 0)"
  by (auto simp: is_zero_def)

lemma mat_at_zero:
  "is_zero m \<Longrightarrow> 0 \<le> r \<Longrightarrow> r < rows m \<Longrightarrow> 0 \<le> c \<Longrightarrow> c < cols m \<Longrightarrow> mat_at m r c = Inr 0"
  by (simp add: is_zero_iff mat_at_def)

lemma offsets_first: "\<exists>rest. offsets = (- 1, - 1, - 1) # rest"
  by (simp add: offsets_eq)

lemma isExtrema_zero:
  assumes k: "0 \<le> k" "k < int (length dog_pyr)"
    and j: "1 \<le> j" "j < int (length (dog_pyr ! nat k))"
    and z: "is_zero (dog_pyr ! nat k ! nat j)" "is_zero (dog_pyr ! nat k ! nat (j - 1))"
    and d: "rows (dog_pyr ! nat k ! nat (j - 1)) = rows (dog_pyr ! nat k ! nat j)"
           "cols (dog_pyr ! nat k ! nat (j - 1)) = cols (dog_pyr ! nat k ! nat j)"
    and r: "1 \<le> r" "r < rows (dog_pyr ! nat k ! nat j)"
    and c: "1 \<le> c" "c < cols (dog_pyr ! nat k ! nat j)"
  shows "isExtrema dog_pyr k j r c = Inr False"
proof -
  have centre: "pyr_at dog_pyr k j r c = Inr 0"
    using k j r c mat_at_zero [OF z(1), of r c] by (simp add: pyr_at_def nth_e_def)
  have below: "pyr_at dog_pyr k (j - 1) (r - 1) (c - 1) = Inr 0"
    using k j r c d mat_at_zero [OF z(2), of "r - 1" "c - 1"] by (simp add: pyr_at_def nth_e_def)
  obtain rest where rest: "offsets = (- 1, - 1, - 1) # rest"
    using offsets_first by blast
  show ?thesis
    by (simp add: isExtrema_def centre rest below)
qed

lemma foldE_same: "(\<And>x. x \<in> set xs \<Longrightarrow> f x s = Inr s) \<Longrightarrow> foldE f xs s = Inr s"
  by (induction xs) simp_all

lemma isExtrema_zero_scanned:
  assumes len: "\<And>ivs. ivs \<in> set dog_pyr \<Longrightarrow> length ivs = L"
    and zero: "\<And>ivs m. ivs \<in> set dog_pyr \<Longrightarrow> m \<in> set ivs \<Longrightarrow> is_zero m"
    and dims: "\<And>ivs a b. ivs \<in> set dog_pyr \<Longrightarrow> a \<in> set ivs \<Longrightarrow> b \<in> set ivs
                 \<Longrightarrow> rows a = rows b \<and> cols a = cols b"
    and border: "1 \<le> border"
    and i: "0 \<le> i" "i < int (length dog_pyr)"
    and j: "1 \<le> j" "j \<le> int L - 2"
    and r: "border \<le> r" "r < rows (dog_pyr ! nat i ! 0) - border"
    and c: "border \<le> c" "c < cols (dog_pyr ! nat i ! 0) - border"
  shows "isExtrema dog_pyr i j r c = Inr False"
proof -
  let ?ivs = "dog_pyr ! nat i"
  have "nat i < length dog_pyr" using i by auto
  then have mem: "?ivs \<in> set dog_pyr" by (rule nth_mem)
  have li: "length ?ivs = L" using len [OF mem] .
  have "nat j < length ?ivs" "nat (j - 1) < length ?ivs" "0 < length ?ivs"
    using j li by auto
  then have a: "?ivs ! nat j \<in> set ?ivs" "?ivs ! nat (j - 1) \<in> set ?ivs" "?ivs ! 0 \<in> set ?ivs"
    by (simp_all only: nth_mem)
  show ?thesis
  proof (rule isExtrema_zero)
    show "0 \<le> i" "i < int (length dog_pyr)" using i by simp_all
    show "1 \<le> j" "j < int (length ?ivs)" using j li by simp_all
    show "is_zero (?ivs ! nat j)" "is_zero (?ivs ! nat (j - 1))"
      using zero [OF mem] a by blast+
    show "rows (?ivs ! nat (j - 1)) = rows (?ivs ! nat j)"
      "cols (?ivs ! nat (j - 1)) = cols (?ivs ! nat j)"
      using dims [OF mem a(2) a(1)] by simp_all
    show "1 \<le> r" "r < rows (?ivs ! nat j)" using r border dims [OF mem a(1) a(3)] by simp_all
    show "1 \<le> c" "c < cols (?ivs ! nat j)" using c border dims [OF mem a(1) a(3)] by simp_all
  qed
qed

lemma getScaleSpaceExtrema_zero:
  assumes ne: "dog_pyr \<noteq> []"
    and len: "\<And>ivs. ivs \<in> set dog_pyr \<Longrightarrow> length ivs = L"
    and zero: "\<And>ivs m. ivs \<in> set dog_pyr \<Longrightarrow> m \<in> set ivs \<Longrightarrow> is_zero m"
    and dims: "\<And>ivs a b. ivs \<in> set dog_pyr \<Longrightarrow> a \<in> set ivs \<Longrightarrow> b \<in> set ivs
                 \<Longrightarrow> rows a = rows b \<and> cols a = cols b"
    and border: "1 \<le> border"
  shows "getScaleSpaceExtrema border cont_thr dtr_thr dog_pyr kps curv_thr = Inr kps"
proof -
  have first: "nth_e dog_pyr 0 = Inr (dog_pyr ! 0)"
    using ne by (simp add: nth_e_def)
  have L0: "length (dog_pyr ! 0) = L" using ne len by simp
  have pixel: "scan_pixel dog_pyr curv_thr cont_thr dtr_thr i j r c kps = Inr kps"
    if i: "i \<in> set [0 .. int (length dog_pyr) - 1]" and j: "j \<in> set [1 .. int L - 2]"
      and r: "r \<in> set [border .. rows (dog_pyr ! nat i ! 0) - border - 1]"
      and c: "c \<in> set [border .. cols (dog_pyr ! nat i ! 0) - border - 1]" for i j r c
  proof -
    have "isExtrema dog_pyr i j r c = Inr False"
      using i j r c by (intro isExtrema_zero_scanned [OF len zero dims border]) simp_all
    then show ?thesis by (simp add: scan_pixel_def)
  qed
  have interval: "ebind (nth_e dog_pyr i) (\<lambda>ivs. ebind (nth_e ivs 0) (\<lambda>m0.
        foldE (\<lambda>r. foldE (scan_pixel dog_pyr curv_thr cont_thr dtr_thr i j r)
                  [border .. cols m0 - border - 1])
          [border .. rows m0 - border - 1] kps)) = Inr kps"
    if i: "i \<in> set [0 .. int (length dog_pyr) - 1]" and j: "j \<in> set [1 .. int L - 2]" for i j
  proof -
    have "nat i < length dog_pyr" using i by auto
    then have mem: "dog_pyr ! nat i \<in> set dog_pyr" by (rule nth_mem)
    have a: "nth_e dog_pyr i = Inr (dog_pyr ! nat i)" using i by (simp add: nth_e_def)
    have b: "nth_e (dog_pyr ! nat i) 0 = Inr (dog_pyr ! nat i ! 0)"
      using j len [OF mem] by (simp add: nth_e_def)
    show ?thesis
      unfolding a b ebind_Inr
      by (intro foldE_same) (rule pixel [OF i j])
  qed
  show ?thesis
    unfolding getScaleSpaceExtrema_def Let_def first ebind_Inr L0
    by (intro foldE_same) (rule interval)
qed

lemma is_zero_diff_image:
  "is_zero a \<Longrightarrow> is_zero b \<Longrightarrow> rows a = rows b \<Longrightarrow> cols a = cols b \<Longrightarrow> is_zero (diff_image a b)"
  by (simp add: is_zero_iff diff_image_def)

lemma is_zero_every_second:
  assumes "is_zero b"
  shows "is_zero (every_second_row (every_second_col b))"
proof -
  have "px b (r * 2) (c * 2) = 0"
    if "0 \<le> r" "r < rows b div 2" "0 \<le> c" "c < cols b div 2" for r c
  proof -
    have "0 \<le> r * 2 \<and> r * 2 < rows b \<and> 0 \<le> c * 2 \<and> c * 2 < cols b"
      using that by linarith
    then show ?thesis using assms unfolding is_zero_iff by blast
  qed
  then show ?thesis
    by (simp add: is_zero_iff every_second_row_def every_second_col_def)
qed

lemma blur_intervals_zero:
  "zero_to_zero B \<Longrightarrow> is_zero t \<Longrightarrow> blur_intervals B ss t n sigma = Inr ivs \<Longrightarrow> m \<in> set ivs
     \<Longrightarrow> is_zero m"
proof (induction n arbitrary: sigma ivs)
  case 0
  then show ?case by simp
next
  case (Suc n)
  from Suc.prems(3) obtain b rest where b: "B sigma t = Inr b"
    and rest: "blur_intervals B ss t n (sigma * ss) = Inr rest" and ivs: "ivs = b # rest"
    by (auto simp: ebind_Inr_iff)
  from Suc.prems(1,2) b have "is_zero b"
    unfolding zero_to_zero_def by blast
  with Suc.IH [OF Suc.prems(1,2) rest] Suc.prems(4) ivs show ?case by auto
qed

lemma downSample_zero:
  assumes "zero_to_zero B" and "is_zero t" and "downSample B si t = Inr d"
  shows "is_zero d"
proof -
  from assms(3) obtain b where b: "B si t = Inr b"
    and d: "d = every_second_row (every_second_col b)"
    unfolding downSample_Inr by blast
  from assms(1,2) b have "is_zero b" unfolding zero_to_zero_def by blast
  then show ?thesis unfolding d by (rule is_zero_every_second)
qed

lemma build_octaves_zero:
  "zero_to_zero B \<Longrightarrow> is_zero t \<Longrightarrow> build_octaves B s0 ss si nI t n = Inr octs
     \<Longrightarrow> ivs \<in> set octs \<Longrightarrow> m \<in> set ivs \<Longrightarrow> is_zero m"
proof (induction n arbitrary: t octs)
  case 0
  then show ?case by simp
next
  case (Suc n)
  from Suc.prems(3) obtain i0 t' rest where
    i0: "blur_intervals B ss t (nat (nI + 3)) s0 = Inr i0"
    and t': "downSample B si t = Inr t'"
    and rest: "build_octaves B s0 ss si nI t' n = Inr rest"
    and octs: "octs = i0 # rest"
    by (auto simp: ebind_Inr_iff)
  have zt': "is_zero t'" using downSample_zero [OF Suc.prems(1,2) t'] .
  from Suc.prems(4) octs consider "ivs = i0" | "ivs \<in> set rest" by auto
  then show ?case
  proof cases
    case 1
    then show ?thesis using blur_intervals_zero [OF Suc.prems(1,2) i0] Suc.prems(5) by simp
  next
    case 2
    then show ?thesis using Suc.IH [OF Suc.prems(1) zt' rest] Suc.prems(5) by simp
  qed
qed

lemma upto_0_2: "[0 .. 2] = [0, 1, 2::int]"
  by (simp add: upto.simps)

lemma dog_zeros:
  "buildDogPyr [[scaled 1 zeros, scaled 2 zeros, scaled 4 zeros, scaled 8 zeros]]
     = Inr [[diff_image (scaled 1 zeros) (scaled 2 zeros),
             diff_image (scaled 2 zeros) (scaled 4 zeros),
             diff_image (scaled 4 zeros) (scaled 8 zeros)]]"
proof -
  have d: "rows (scaled s zeros) = 5" "cols (scaled s zeros) = 5" for s
    by (simp_all add: scaled_def zeros_def)
  show ?thesis
    by (simp add: buildDogPyr_def nth_e_def mat_sub_def Let_def upto_0_2 d)
qed

lemma zero_to_zero_scale_blur: "zero_to_zero scale_blur"
  by (auto simp: zero_to_zero_def scale_blur_def scaled_def is_zero_iff)

lemma is_zero_zeros: "is_zero zeros"
  by (simp add: is_zero_iff zeros_def)

lemma pyramid_zeros_1_1:
  "buildGaussianPyramid scale_blur 1 2 1 zeros [] 1 1
     = Inr [[scaled 1 zeros, scaled 2 zeros, scaled 4 zeros, scaled 8 zeros]]"
  by (simp add: buildGaussianPyramid_def eval_nat_numeral scale_blur_def downSample_def Let_def)

text \<open>
  Claim C9: for an image of zeros (and a blur that keeps sizes and zeros, at least one
  octave, a border of at least one pixel), every image of the difference pyramid is zero,
  \<^verbatim>\<open>isExtrema\<close> returns false at every pixel that \<^verbatim>\<open>getScaleSpaceExtrema\<close>
  scans, in every octave \<open>i\<close> and interval \<open>j\<close>, and the scan returns no keypoint.
\<close>

theorem zero_image_no_extrema:
  assumes ks: "keeps_size GaussianBlur" and zz: "zero_to_zero GaussianBlur"
    and z: "is_zero img"
    and build: "buildGaussianPyramid GaussianBlur init_sigma step_sigma interpolation_sigma img []
                  nOctaves nIntervals = Inr gauss_pyr"
    and pos: "0 < nOctaves" and border: "1 \<le> border"
  shows "\<exists>dog_pyr. buildDogPyr gauss_pyr = Inr dog_pyr
           \<and> (\<forall>ivs \<in> set dog_pyr. \<forall>m \<in> set ivs. is_zero m)
           \<and> getScaleSpaceExtrema border cont_thr dtr_thr dog_pyr [] curv_thr = Inr []
           \<and> (\<forall>i j r c. 0 \<le> i \<and> i < int (length dog_pyr)
                  \<and> 1 \<le> j \<and> j \<le> int (length (dog_pyr ! 0)) - 2
                  \<and> border \<le> r \<and> r < rows (dog_pyr ! nat i ! 0) - border
                  \<and> border \<le> c \<and> c < cols (dog_pyr ! nat i ! 0) - border
                \<longrightarrow> isExtrema dog_pyr i j r c = Inr False)"
proof -
  let ?L = "nat (nIntervals + 3)"
  from build have octs: "build_octaves GaussianBlur init_sigma step_sigma interpolation_sigma
      nIntervals img (nat nOctaves) = Inr gauss_pyr"
    by (simp add: buildGaussianPyramid_Inr)
  have len: "length gauss_pyr = nat nOctaves"
    using build_octaves_length [OF octs] .
  have ne: "gauss_pyr \<noteq> []" using len pos by auto
  have glen: "length ivs = ?L" if "ivs \<in> set gauss_pyr" for ivs
    using build_octaves_lengths [OF octs that] .
  have gdims: "rows a = rows b \<and> cols a = cols b"
    if "ivs \<in> set gauss_pyr" "a \<in> set ivs" "b \<in> set ivs" for ivs a b
  proof -
    from that(1) obtain k where k: "k < nat nOctaves" and ivs: "ivs = gauss_pyr ! k"
      using len by (auto simp: in_set_conv_nth)
    from build_octaves_nth [OF ks octs k] ivs that(2,3) show ?thesis by simp
  qed
  have gzero: "is_zero m" if "ivs \<in> set gauss_pyr" "m \<in> set ivs" for ivs m
    using build_octaves_zero [OF zz z octs that] .
  define dog_pyr where
    "dog_pyr = map (\<lambda>ivs. map (\<lambda>j. diff_image (ivs ! j) (ivs ! Suc j)) [0 ..< ?L - 1]) gauss_pyr"
  have dog: "buildDogPyr gauss_pyr = Inr dog_pyr"
    unfolding dog_pyr_def using buildDogPyr_regular [OF ne, of ?L] glen gdims by blast
  have dne: "dog_pyr \<noteq> []" using ne by (simp add: dog_pyr_def)
  have dlen: "length divs = ?L - 1" if "divs \<in> set dog_pyr" for divs
    using that by (auto simp: dog_pyr_def)
  have dimg: "\<exists>ivs a b. ivs \<in> set gauss_pyr \<and> a \<in> set ivs \<and> b \<in> set ivs \<and> m = diff_image a b"
    if "divs \<in> set dog_pyr" "m \<in> set divs" for divs m
  proof -
    from that(1) obtain ivs where ivs: "ivs \<in> set gauss_pyr"
      and divs: "divs = map (\<lambda>j. diff_image (ivs ! j) (ivs ! Suc j)) [0 ..< ?L - 1]"
      by (auto simp: dog_pyr_def)
    from that(2) divs obtain j where j: "j < ?L - 1"
      and m: "m = diff_image (ivs ! j) (ivs ! Suc j)"
      by auto
    have "ivs ! j \<in> set ivs" "ivs ! Suc j \<in> set ivs"
      using j glen [OF ivs] by simp_all
    with ivs m show ?thesis by blast
  qed
  have dzero: "is_zero m" if "divs \<in> set dog_pyr" "m \<in> set divs" for divs m
  proof -
    from dimg [OF that] obtain ivs a b where
      "ivs \<in> set gauss_pyr" "a \<in> set ivs" "b \<in> set ivs" "m = diff_image a b" by blast
    then show ?thesis
      using gzero [of ivs a] gzero [of ivs b] gdims [of ivs a b] by (simp add: is_zero_diff_image)
  qed
  have ddims: "rows m = rows m' \<and> cols m = cols m'"
    if "divs \<in> set dog_pyr" "m \<in> set divs" "m' \<in> set divs" for divs m m'
  proof -
    from that(1) obtain ivs where ivs: "ivs \<in> set gauss_pyr"
      and divs: "divs = map (\<lambda>j. diff_image (ivs ! j) (ivs ! Suc j)) [0 ..< ?L - 1]"
      by (auto simp: dog_pyr_def)
    from that(2) divs obtain j where j: "j < ?L - 1"
      and m: "m = diff_image (ivs ! j) (ivs ! Suc j)" by auto
    from that(3) divs obtain j' where j': "j' < ?L - 1"
      and m': "m' = diff_image (ivs ! j') (ivs ! Suc j')" by auto
    have "ivs ! j \<in> set ivs" "ivs ! j' \<in> set ivs"
      using j j' glen [OF ivs] by simp_all
    from gdims [OF ivs this] show ?thesis
      unfolding m m' by (simp add: diff_image_def)
  qed
  have d0: "length (dog_pyr ! 0) = ?L - 1"
    using dne dlen by simp
  have scan: "getScaleSpaceExtrema border cont_thr dtr_thr dog_pyr [] curv_thr = Inr []"
  proof (rule getScaleSpaceExtrema_zero [where L = "?L - 1"])
    show "dog_pyr \<noteq> []" by (rule dne)
    show "\<And>divs. divs \<in> set dog_pyr \<Longrightarrow> length divs = ?L - 1" by (rule dlen)
    show "\<And>divs m. divs \<in> set dog_pyr \<Longrightarrow> m \<in> set divs \<Longrightarrow> is_zero m" by (rule dzero)
    show "\<And>divs a b. divs \<in> set dog_pyr \<Longrightarrow> a \<in> set divs \<Longrightarrow> b \<in> set divs
            \<Longrightarrow> rows a = rows b \<and> cols a = cols b" by (rule ddims)
    show "1 \<le> border" by (rule border)
  qed
  have px: "isExtrema dog_pyr i j r c = Inr False"
    if "0 \<le> i" "i < int (length dog_pyr)" "1 \<le> j" "j \<le> int (length (dog_pyr ! 0)) - 2"
      "border \<le> r" "r < rows (dog_pyr ! nat i ! 0) - border"
      "border \<le> c" "c < cols (dog_pyr ! nat i ! 0) - border" for i j r c
  proof (rule isExtrema_zero_scanned [where L = "?L - 1" and border = border])
    show "\<And>divs. divs \<in> set dog_pyr \<Longrightarrow> length divs = ?L - 1" by (rule dlen)
    show "\<And>divs m. divs \<in> set dog_pyr \<Longrightarrow> m \<in> set divs \<Longrightarrow> is_zero m" by (rule dzero)
    show "\<And>divs a b. divs \<in> set dog_pyr \<Longrightarrow> a \<in> set divs \<Longrightarrow> b \<in> set divs
            \<Longrightarrow> rows a = rows b \<and> cols a = cols b" by (rule ddims)
    show "1 \<le> border" by (rule border)
    show "j \<le> int (?L - 1) - 2" using that(4) d0 by simp
  qed (use that in simp_all)
  show ?thesis
  proof (intro exI [of _ dog_pyr] conjI ballI allI impI)
    show "buildDogPyr gauss_pyr = Inr dog_pyr" by (rule dog)
    show "getScaleSpaceExtrema border cont_thr dtr_thr dog_pyr [] curv_thr = Inr []" by (rule scan)
  next
    fix divs m assume "divs \<in> set dog_pyr" "m \<in> set divs"
    then show "is_zero m" by (rule dzero)
  next
    fix i j r c
    assume "0 \<le> i \<and> i < int (length dog_pyr)
                  \<and> 1 \<le> j \<and> j \<le> int (length (dog_pyr ! 0)) - 2
                  \<and> border \<le> r \<and> r < rows (dog_pyr ! nat i ! 0) - border
                  \<and> border \<le> c \<and> c < cols (dog_pyr ! nat i ! 0) - border"
    then show "isExtrema dog_pyr i j r c = Inr False" using px by blast
  qed
qed

theorem zero_image_no_extrema_witness:
  "\<exists>dog_pyr. buildDogPyr [[scaled 1 zeros, scaled 2 zeros, scaled 4 zeros, scaled 8 zeros]] = Inr dog_pyr
     \<and> getScaleSpaceExtrema 1 (3 / 100) 0 dog_pyr [] 10 = Inr []
     \<and> isExtrema dog_pyr 0 1 2 3 = Inr False"
proof -
  have pos: "(0::int) < 1" and border: "(1::int) \<le> 1" by simp_all
  from zero_image_no_extrema [OF keeps_size_scale_blur zero_to_zero_scale_blur is_zero_zeros
      pyramid_zeros_1_1 pos border, of "3 / 100" 0 10]
  obtain dog_pyr where
    d: "buildDogPyr [[scaled 1 zeros, scaled 2 zeros, scaled 4 zeros, scaled 8 zeros]] = Inr dog_pyr"
    and s: "getScaleSpaceExtrema 1 (3 / 100) 0 dog_pyr [] 10 = Inr []"
    and e: "\<forall>i j r c. 0 \<le> i \<and> i < int (length dog_pyr)
                  \<and> 1 \<le> j \<and> j \<le> int (length (dog_pyr ! 0)) - 2
                  \<and> 1 \<le> r \<and> r < rows (dog_pyr ! nat i ! 0) - 1
                  \<and> 1 \<le> c \<and> c < cols (dog_pyr ! nat i ! 0) - 1
                \<longrightarrow> isExtrema dog_pyr i j r c = Inr False"
    by blast
  have v: "dog_pyr = [[diff_image (scaled 1 zeros) (scaled 2 zeros),
                       diff_image (scaled 2 zeros) (scaled 4 zeros),
                       diff_image (scaled 4 zeros) (scaled 8 zeros)]]"
    using d by (simp add: dog_zeros)
  have "isExtrema dog_pyr 0 1 2 3 = Inr False"
    by (rule e [rule_format]) (simp add: v diff_image_def scaled_def zeros_def)
  with d s show ?thesis by blast
qed

section \<open>Properties of the orientation estimator\<close>

lemma cells_first: "0 < nr \<Longrightarrow> 0 < nc \<Longrightarrow> \<exists>rest. cells nr nc = (0, 0) # rest"
  by (simp add: cells_def upto_rec1 [of 0 "nr - 1"] upto_rec1 [of 0 "nc - 1"])

lemma trunc_of_int [simp]: "trunc (of_int n) = n"
  by (simp add: trunc_def)

lemma trunc_simps [simp]: "trunc 0 = 0" "trunc 1 = 1" "trunc (numeral n) = numeral n"
  by (simp_all add: trunc_def)

text \<open>
  Claim C10 (every read of the window is inside the image, for any width and height).
  The test compares \<^verbatim>\<open>keyx\<close> with the columns and \<^verbatim>\<open>keyy\<close> with the rows,
  and the reads use \<^verbatim>\<open>keyx\<close> in the row index and \<^verbatim>\<open>keyy\<close> in the column
  index. In an image of 20 rows and 40 columns the keypoint at \<open>x = 30\<close>, \<open>y = 10\<close>
  passes the test with \<open>W = 8\<close>, and the first read, for \<open>i = j = 0\<close>, addresses row
  \<open>23\<close>.
\<close>

theorem orient_keypoint_reads_outside:
  "window_fits 8 wide 30 10
   \<and> mat_at wide (30 + 0 + 1 - 8) (10 - 8 + 0) = Inl OutOfRange
   \<and> orient_keypoint fl PI atan2f 8 [[wide]] 0
        \<lparr>keypoints = [KeyPoint 30 10 0 (- 1) 0 0], keypointsGradients = [],
         keypointsMagnitudes = []\<rparr> = Inl OutOfRange"
proof -
  obtain rest where c: "cells 16 16 = (0, 0) # rest"
    using cells_first [of 16 16] by auto
  have f: "window_fits 8 wide 30 10"
    by (simp add: window_fits_def wide_def)
  have r: "mat_at wide (30 + 0 + 1 - 8) (10 - 8 + 0) = Inl OutOfRange"
    by (simp add: mat_at_def wide_def)
  have g: "gradient_cell fl PI atan2f 8 wide 30 10 (0, 0) = Inl OutOfRange"
    using r by (simp add: gradient_cell_def)
  have "orient_keypoint fl PI atan2f 8 [[wide]] 0
        \<lparr>keypoints = [KeyPoint 30 10 0 (- 1) 0 0], keypointsGradients = [],
         keypointsMagnitudes = []\<rparr> = Inl OutOfRange"
    by (simp add: orient_keypoint_def nth_e_def KeyPoint_def f c g)
  with f r show ?thesis by blast
qed


lemma foldE_invariant:
  assumes "foldE f xs s = Inr s'" and "P s"
    and step: "\<And>x s s'. P s \<Longrightarrow> f x s = Inr s' \<Longrightarrow> P s'"
  shows "P s'"
  using assms(1,2)
proof (induction xs arbitrary: s)
  case Nil
  then show ?case by simp
next
  case (Cons x xs)
  from Cons.prems(1) obtain s1 where s1: "f x s = Inr s1" and rest: "foldE f xs s1 = Inr s'"
    by (auto split: sum.splits)
  from step [OF Cons.prems(2) s1] have "P s1" .
  from Cons.IH [OF rest this] show ?case .
qed















lemma trunc_Ints: "h \<in> \<int> \<Longrightarrow> of_int (trunc h) = h"
  by (auto simp: trunc_def elim!: Ints_cases)

lemma bump_props:
  assumes "bump histo index = Inr histo'"
  shows "length histo' = length histo"
    and "(\<forall>h \<in> set histo. h \<in> \<int>) \<Longrightarrow> (\<forall>h \<in> set histo'. h \<in> \<int>)"
proof -
  from assms have i: "0 \<le> index" "index < int (length histo)"
    and eq: "histo' = histo[nat index := histo ! nat index + 1]"
    by (auto simp: bump_def split: if_splits)
  show "length histo' = length histo" by (simp add: eq)
  assume a: "\<forall>h \<in> set histo. h \<in> \<int>"
  have "histo ! nat index \<in> \<int>" using a i by simp
  then have "histo ! nat index + 1 \<in> \<int>" by simp
  with a show "\<forall>h \<in> set histo'. h \<in> \<int>"
    unfolding eq by (metis insertE set_update_subset_insert subsetD)
qed

lemma cdiv_360_10: "cdiv 360 10 = Inr 36"
  by (simp add: cdiv_def)

lemma buildHistogram_props:
  assumes "buildHistogram fl matrix 10 360 = Inr histo"
  shows "length histo = 36 \<and> (\<forall>h \<in> set histo. h \<in> \<int>)"
proof -
  let ?P = "\<lambda>h :: real list. length h = 36 \<and> (\<forall>x \<in> set h. x \<in> \<int>)"
  from assms have f: "foldE (\<lambda>(i, j) histo.
             ebind (mat_at matrix i j) (\<lambda>v. bump histo (trunc (fl (v / of_int 10)))))
           (cells (rows matrix) (cols matrix)) (replicate (nat 36) 0) = Inr histo"
    by (simp add: buildHistogram_def cdiv_360_10)
  show ?thesis
  proof (rule foldE_invariant [OF f, where P = ?P])
    show "?P (replicate (nat 36) 0)" by simp
    show "?P s'" if "?P s"
      and "(case x of (i, j) \<Rightarrow> \<lambda>histo.
             ebind (mat_at matrix i j) (\<lambda>v. bump histo (trunc (fl (v / of_int 10))))) s = Inr s'"
      for x s s'
    proof -
      from that(2) obtain idx where "bump s idx = Inr s'"
        by (cases x) (auto simp: ebind_Inr_iff)
      from bump_props [OF this] that(1) show ?thesis by simp
    qed
  qed
qed

lemma histogramMax_loop_inv:
  assumes ints: "\<forall>h \<in> set hist. h \<in> \<int>"
  shows "n \<le> length hist \<Longrightarrow> 0 \<le> im \<Longrightarrow> nat im < length hist \<Longrightarrow> nat im \<le> n
     \<Longrightarrow> hist ! nat im = of_int m
     \<Longrightarrow> \<forall>i<n. hist ! i \<le> of_int m
     \<Longrightarrow> \<forall>i<nat im. hist ! i < of_int m
     \<Longrightarrow> histogramMax_loop (drop n hist) (int n) (m, im) = (m', im')
     \<Longrightarrow> 0 \<le> im' \<and> nat im' < length hist \<and> hist ! nat im' = of_int m'
         \<and> (\<forall>i<length hist. hist ! i \<le> hist ! nat im')
         \<and> (\<forall>i<nat im'. hist ! i < hist ! nat im')"
proof (induction "length hist - n" arbitrary: n m im)
  case 0
  then have "drop n hist = []" by simp
  with 0 show ?case by simp
next
  case (Suc d)
  then have n: "n < length hist" by simp
  then have dr: "drop n hist = hist ! n # drop (Suc n) hist"
    by (simp add: Cons_nth_drop_Suc)
  have d: "d = length hist - Suc n" using Suc.hyps(2) by simp
  have hn: "of_int (trunc (hist ! n)) = hist ! n"
    using ints n by (simp add: trunc_Ints)
  show ?case
  proof (cases "of_int m < hist ! n")
    case True
    with Suc.prems(8) dr
    have loop: "histogramMax_loop (drop (Suc n) hist) (int (Suc n)) (trunc (hist ! n), int n) = (m', im')"
      by (simp add: add.commute)
    show ?thesis
    proof (rule Suc.hyps(1) [OF d _ _ _ _ _ _ _ loop])
      show "Suc n \<le> length hist" using n by simp
      show "0 \<le> int n" by simp
      show "nat (int n) < length hist" using n by simp
      show "nat (int n) \<le> Suc n" by simp
      show "hist ! nat (int n) = of_int (trunc (hist ! n))" using hn by simp
      show "\<forall>i<Suc n. hist ! i \<le> of_int (trunc (hist ! n))"
        using Suc.prems(6) True hn by (auto simp: less_Suc_eq)
      show "\<forall>i<nat (int n). hist ! i < of_int (trunc (hist ! n))"
        using Suc.prems(6) True hn by auto
    qed
  next
    case False
    with Suc.prems(8) dr
    have loop: "histogramMax_loop (drop (Suc n) hist) (int (Suc n)) (m, im) = (m', im')"
      by (simp add: add.commute)
    show ?thesis
    proof (rule Suc.hyps(1) [OF d _ _ _ _ _ _ _ loop])
      show "Suc n \<le> length hist" using n by simp
      show "0 \<le> im" by (rule Suc.prems(2))
      show "nat im < length hist" by (rule Suc.prems(3))
      show "nat im \<le> Suc n" using Suc.prems(4) by simp
      show "hist ! nat im = of_int m" by (rule Suc.prems(5))
      show "\<forall>i<Suc n. hist ! i \<le> of_int m"
        using Suc.prems(6) False by (auto simp: less_Suc_eq)
      show "\<forall>i<nat im. hist ! i < of_int m" by (rule Suc.prems(7))
    qed
  qed
qed

lemma histogramMax_first_max:
  assumes "histogramMax hist = Inr (maximum, indexMax)" and ints: "\<forall>h \<in> set hist. h \<in> \<int>"
  shows "0 \<le> indexMax \<and> nat indexMax < length hist \<and> hist ! nat indexMax = of_int maximum
         \<and> (\<forall>i<length hist. hist ! i \<le> hist ! nat indexMax)
         \<and> (\<forall>i<nat indexMax. hist ! i < hist ! nat indexMax)"
proof -
  from assms(1) have ne: "0 < length hist"
    and loop: "histogramMax_loop hist 0 (trunc (hist ! 0), 0) = (maximum, indexMax)"
    by (auto simp: histogramMax_def nth_e_def ebind_Inr_iff split: if_splits)
  have h0: "hist ! 0 = of_int (trunc (hist ! 0))"
    using ints ne by (simp add: trunc_Ints)
  from loop have loop': "histogramMax_loop (drop 0 hist) (int 0) (trunc (hist ! 0), 0)
      = (maximum, indexMax)" by simp
  show ?thesis
    by (rule histogramMax_loop_inv [OF ints _ _ _ _ _ _ _ loop']) (use ne h0 in simp_all)
qed

lemma orient_keypoint_fits_Inr:
  assumes "nth_e (keypoints st) z = Inr k" and "nth_e dog_pyr (octave k) = Inr ivs"
    and "nth_e ivs (trunc (kp_size k)) = Inr img"
    and "window_fits W img (trunc (pt_x k)) (trunc (pt_y k))"
  shows "orient_keypoint fl PI atan2f W dog_pyr z st = Inr st' \<longleftrightarrow>
     (0 \<le> W * 2 \<and>
      (\<exists>vals histo maxima indexMax.
         mapE (gradient_cell fl PI atan2f W img (trunc (pt_x k)) (trunc (pt_y k)))
           (cells (W * 2) (W * 2)) = Inr vals
         \<and> buildHistogram fl (grid (W * 2) (map snd vals)) 10 360 = Inr histo
         \<and> histogramMax histo = Inr (maxima, indexMax)
         \<and> st' = \<lparr>keypoints = (keypoints st)[nat z := k\<lparr>angle := of_int (indexMax * 10 + 5)\<rparr>],
                   keypointsGradients = keypointsGradients st @ [grid (W * 2) (map snd vals)],
                   keypointsMagnitudes = keypointsMagnitudes st @ [grid (W * 2) (map fst vals)]\<rparr>))"
  using assms
  by (auto simp: orient_keypoint_def Let_def ebind_Inr_iff)

text \<open>
  What an iteration assigns when it returns, whatever the rounding: the angle is
  \<open>indexMax * 10 + 5\<close>, \<open>indexMax\<close> being the first index at which the histogram of the
  angle patch has its greatest count.
\<close>

lemma orient_keypoint_angle_when_returns:
  assumes k: "nth_e (keypoints st) z = Inr k" and ivs: "nth_e dog_pyr (octave k) = Inr ivs"
    and img: "nth_e ivs (trunc (kp_size k)) = Inr img"
    and fits: "window_fits W img (trunc (pt_x k)) (trunc (pt_y k))"
    and run: "orient_keypoint fl PI atan2f W dog_pyr z st = Inr st'"
  shows "\<exists>patch histo indexMax.
           keypointsGradients st' = keypointsGradients st @ [patch]
           \<and> buildHistogram fl patch 10 360 = Inr histo \<and> length histo = 36
           \<and> 0 \<le> indexMax \<and> indexMax < 36
           \<and> (\<forall>i<36. histo ! i \<le> histo ! nat indexMax)
           \<and> (\<forall>i<nat indexMax. histo ! i < histo ! nat indexMax)
           \<and> angle (keypoints st' ! nat z) = of_int indexMax * 10 + 5
           \<and> 0 \<le> angle (keypoints st' ! nat z) \<and> angle (keypoints st' ! nat z) < 360"
proof -
  from run obtain vals histo maxima indexMax where
    h: "buildHistogram fl (grid (W * 2) (map snd vals)) 10 360 = Inr histo"
    and m: "histogramMax histo = Inr (maxima, indexMax)"
    and st': "st' = \<lparr>keypoints = (keypoints st)[nat z := k\<lparr>angle := of_int (indexMax * 10 + 5)\<rparr>],
                   keypointsGradients = keypointsGradients st @ [grid (W * 2) (map snd vals)],
                   keypointsMagnitudes = keypointsMagnitudes st @ [grid (W * 2) (map fst vals)]\<rparr>"
    unfolding orient_keypoint_fits_Inr [OF k ivs img fits] by blast
  from buildHistogram_props [OF h] have len: "length histo = 36"
    and ints: "\<forall>h \<in> set histo. h \<in> \<int>" by simp_all
  from histogramMax_first_max [OF m ints] len
  have im: "0 \<le> indexMax" "indexMax < 36"
    and mx: "\<forall>i<36. histo ! i \<le> histo ! nat indexMax"
    and fst: "\<forall>i<nat indexMax. histo ! i < histo ! nat indexMax"
    by auto
  from k have z: "nat z < length (keypoints st)"
    by (auto simp: nth_e_def split: if_splits)
  have a: "angle (keypoints st' ! nat z) = of_int indexMax * 10 + 5"
    using z by (simp add: st')
  have r: "0 \<le> of_int indexMax * 10 + (5::real)" "of_int indexMax * 10 + (5::real) < 360"
    using im by simp_all
  show ?thesis
    using h len im mx fst a r
    by (intro exI [of _ "grid (W * 2) (map snd vals)"] exI [of _ histo] exI [of _ indexMax])
      (simp add: st')
qed

text \<open>
  A run that returns: on \<open>slope\<close>, with \<open>W = 1\<close>, the four angles of the patch of the
  keypoint at \<open>(2, 2)\<close> are \<open>90\<close>, bin \<open>9\<close> holds the four of them, and the angle is \<open>95\<close>.
\<close>

lemma cells_2_2: "cells 2 2 = [(0, 0), (0, 1), (1, 0), (1, 1)]"
  by (simp add: cells_def upto.simps)

lemma gradient_cell_slope:
  "ij \<in> set (cells 2 2)
     \<Longrightarrow> gradient_cell exact PI_314 atan2f_axes 1 slope 2 2 ij = Inr (2, 90)"
  by (auto simp: cells_2_2 gradient_cell_def mat_at_def slope_def Let_def rad2deg_def
      atan2f_axes_def PI_314_def exact_def)

lemma patch_slope:
  "mapE (gradient_cell exact PI_314 atan2f_axes 1 slope 2 2) (cells 2 2)
     = Inr [(2, 90), (2, 90), (2, 90), (2, 90)]"
  using mapE_Inr [of "cells 2 2" "gradient_cell exact PI_314 atan2f_axes 1 slope 2 2"
      "\<lambda>_. (2, 90)"] gradient_cell_slope
  by (simp add: cells_2_2)

lemma histogram_slope:
  "buildHistogram exact (grid 2 [90, 90, 90, 90]) 10 360 = Inr ((replicate 36 0)[9 := 4])"
  by (simp add: buildHistogram_def cdiv_360_10 grid_def cells_2_2 mat_at_def bump_def trunc_def
      exact_def)

lemma histogramMax_slope: "histogramMax ((replicate 36 0)[9 := 4]) = Inr (4, 9)"
  by (simp add: histogramMax_def nth_e_def eval_nat_numeral trunc_def)

lemma orient_keypoint_slope:
  "orient_keypoint exact PI_314 atan2f_axes 1 [[slope]] 0 st_slope
     = Inr \<lparr>keypoints = [KeyPoint 2 2 0 95 0 0],
            keypointsGradients = [grid 2 [90, 90, 90, 90]],
            keypointsMagnitudes = [grid 2 [2, 2, 2, 2]]\<rparr>"
proof -
  let ?k = "KeyPoint 2 2 0 (- 1) 0 0"
  have k: "nth_e (keypoints st_slope) 0 = Inr ?k"
    by (simp add: st_slope_def nth_e_def)
  have ivs: "nth_e [[slope]] (octave ?k) = Inr [slope]"
    by (simp add: KeyPoint_def nth_e_def)
  have img: "nth_e [slope] (trunc (kp_size ?k)) = Inr slope"
    by (simp add: KeyPoint_def nth_e_def)
  have xy: "trunc (pt_x ?k) = 2" "trunc (pt_y ?k) = 2"
    by (simp_all add: KeyPoint_def)
  have fits: "window_fits 1 slope (trunc (pt_x ?k)) (trunc (pt_y ?k))"
    by (simp add: xy window_fits_def slope_def)
  have p: "mapE (gradient_cell exact PI_314 atan2f_axes 1 slope (trunc (pt_x ?k)) (trunc (pt_y ?k)))
             (cells (1 * 2) (1 * 2)) = Inr [(2, 90), (2, 90), (2, 90), (2, 90)]"
    by (simp add: xy patch_slope)
  have h: "buildHistogram exact (grid (1 * 2) (map snd [(2, 90), (2, 90), (2, 90), (2::real, 90::real)]))
             10 360 = Inr ((replicate 36 0)[9 := 4])"
    by (simp add: histogram_slope)
  show ?thesis
    unfolding orient_keypoint_fits_Inr [OF k ivs img fits]
    using p h histogramMax_slope
    by (simp add: st_slope_def KeyPoint_def)
qed

text \<open>
  Claim C7 (every keypoint whose window fits is assigned the centre of the first bin of
  greatest count, an angle in \<open>[0, 360)\<close>). The keypoint at \<open>x = 30\<close>, \<open>y = 10\<close> of an
  image of 20 rows and 40 columns passes the window test with \<open>W = 8\<close>; the run of
  \<^verbatim>\<open>computeOrientationHist\<close> reads row \<open>23\<close> of the image and assigns no angle, for
  every rounding, \<open>PI\<close> and \<^verbatim>\<open>atan2f\<close>. And an angle of \<open>360\<close>, which
  \<^verbatim>\<open>rad2deg\<close> returns in single precision for a negative angle close to zero, is
  counted in \<^verbatim>\<open>histo[36]\<close>, outside the 36 bins.
\<close>

theorem computeOrientationHist_assigns_nothing_in_window:
  "window_fits 8 wide (trunc (pt_x (keypoints st_wide ! 0))) (trunc (pt_y (keypoints st_wide ! 0)))
   \<and> computeOrientationHist fl PI atan2f 8 [[wide]] st_wide = Inl OutOfRange
   \<and> buildHistogram exact (grid 1 [360]) 10 360 = Inl OutOfRange"
proof -
  obtain rest where c: "cells 16 16 = (0, 0) # rest"
    using cells_first [of 16 16] by auto
  have xy: "trunc (pt_x (keypoints st_wide ! 0)) = 30" "trunc (pt_y (keypoints st_wide ! 0)) = 10"
    by (simp_all add: st_wide_def KeyPoint_def)
  have f: "window_fits 8 wide 30 10"
    by (simp add: window_fits_def wide_def)
  have g: "gradient_cell fl PI atan2f 8 wide 30 10 (0, 0) = Inl OutOfRange"
    by (simp add: gradient_cell_def mat_at_def wide_def)
  have step: "orient_keypoint fl PI atan2f 8 [[wide]] 0 st_wide = Inl OutOfRange"
    by (simp add: orient_keypoint_def st_wide_def nth_e_def KeyPoint_def f c g)
  have l: "length (keypoints st_wide) = 1" by (simp add: st_wide_def)
  have run: "computeOrientationHist fl PI atan2f 8 [[wide]] st_wide = Inl OutOfRange"
    by (simp add: computeOrientationHist_def l step)
  have cells1: "cells 1 1 = [(0, 0)]"
    by (simp add: cells_def)
  have h: "buildHistogram exact (grid 1 [360]) 10 360 = Inl OutOfRange"
    by (simp add: buildHistogram_def cdiv_360_10 grid_def cells1 mat_at_def bump_def trunc_def
        exact_def)
  from f run h show ?thesis by (simp add: xy)
qed

end
